(* ===== verification/Systems.thy ===== *)
theory Systems
  imports Main
begin

text \<open>
  Transition systems. Four parts of the program run beside others (the configuration cache, the PHP
  information cache, the status script and a round of scrapes); each is a step relation on its state,
  and the properties of each rest on an invariant. What they share is proved here once: the states a
  system reaches, that an invariant holds in all of them, and that a system whose work shrinks with
  every step, and which can always step until it is finished, comes to its end.
\<close>

inductive reachable :: "('s \<Rightarrow> bool) \<Rightarrow> ('s \<Rightarrow> 's \<Rightarrow> bool) \<Rightarrow> 's \<Rightarrow> bool" for init step where
  start: "init s \<Longrightarrow> reachable init step s"
| move: "reachable init step s \<Longrightarrow> step s t \<Longrightarrow> reachable init step t"

lemma reachable_origin: "reachable (\<lambda>s. s = origin) step origin"
  by (rule reachable.start) simp

locale invariant_system =
  fixes init :: "'s \<Rightarrow> bool" and step :: "'s \<Rightarrow> 's \<Rightarrow> bool" and inv :: "'s \<Rightarrow> bool"
  assumes init_inv: "init s \<Longrightarrow> inv s"
    and step_inv: "step s t \<Longrightarrow> inv s \<Longrightarrow> inv t"
begin

lemma reachable_inv: "reachable init step s \<Longrightarrow> inv s"
  by (induction rule: reachable.induct) (auto intro: init_inv step_inv)

end

locale draining_system = invariant_system +
  fixes work :: "'a \<Rightarrow> nat" and final :: "'a \<Rightarrow> bool"
  assumes step_work: "step s t \<Longrightarrow> inv s \<Longrightarrow> work t < work s"
    and can_step: "inv s \<Longrightarrow> \<not> final s \<Longrightarrow> \<exists>t. step s t"
begin

lemma drains: "inv s \<Longrightarrow> \<exists>t. step\<^sup>*\<^sup>* s t \<and> final t"
proof (induction "work s" arbitrary: s rule: less_induct)
  case less
  show ?case
  proof (cases "final s")
    case False
    then obtain t where t: "step s t" using can_step less.prems by blast
    with less step_inv step_work obtain u where "step\<^sup>*\<^sup>* t u" "final u" by blast
    with t show ?thesis by (meson converse_rtranclp_into_rtranclp)
  qed auto
qed

lemma run_length: "(step ^^ n) s t \<Longrightarrow> inv s \<Longrightarrow> n + work t \<le> work s \<and> inv t"
proof (induction n arbitrary: t)
  case (Suc n)
  then obtain u where "(step ^^ n) s u" "step u t" by auto
  with Suc step_inv step_work [of u t] show ?case by force
qed simp

end

end
