(* ===== verification/Prelude.thy ===== *)
theory Prelude
  imports Systems "HOL-Library.AList" "HOL-Library.Word" "HOL-Library.Multiset"
begin

text \<open>
  What every component of the development shares: the collections of rewrite rules the
  component proofs draw on, the model of Go's built-in maps, integer conversions, and a few
  facts about lists, options and sums that the library does not have in this form.

  A Go map is an association list with distinct keys. Lookup is \<^const>\<open>map_of\<close>, assignment
  is \<^const>\<open>AList.update\<close>, deletion is \<^const>\<open>AList.delete\<close>. The order of the list is
  the order of one particular \<^verbatim>\<open>range\<close> loop: Go leaves it open, so a claim about a loop over
  a map is stated for every permutation of the entries.
\<close>

unbundle bit_operations_syntax

named_theorems go_simps \<open>unfolding rules of the Go standard library model\<close>
named_theorems result_simps \<open>characterisations of the success value of a fallible operation\<close>

type_synonym 'v gomap = "(string \<times> 'v) list"
type_synonym strmap = "string gomap"
type_synonym int64 = "64 word"
type_synonym uint64 = "64 word"

abbreviation gomap_ok :: "'v gomap \<Rightarrow> bool" where
  "gomap_ok m \<equiv> distinct (map fst m)"

text \<open>\<^verbatim>\<open>m[k]\<close> on a string map: the zero value when the key is absent.\<close>

definition go_index :: "strmap \<Rightarrow> string \<Rightarrow> string" where
  "go_index m k = (case map_of m k of None \<Rightarrow> [] | Some v \<Rightarrow> v)"

text \<open>The conversion \<^verbatim>\<open>int32(x)\<close> of a Go integer: the low 32 bits, read as two's complement.\<close>

definition go_int32 :: "int \<Rightarrow> int" where
  "go_int32 x = signed_take_bit 31 x"

text \<open>The conversion \<^verbatim>\<open>uint64(x)\<close> of a signed Go integer.\<close>

definition go_uint64 :: "int \<Rightarrow> uint64" where
  "go_uint64 x = word_of_int x"

lemma go_int32_small [simp]: "0 \<le> x \<Longrightarrow> x < 2147483648 \<Longrightarrow> go_int32 x = x"
  by (simp add: go_int32_def signed_take_bit_int_eq_self)

lemma gomap_ok_update [simp]: "gomap_ok m \<Longrightarrow> gomap_ok (AList.update k v m)"
  by (rule distinct_update)

lemma gomap_ok_delete [simp]: "gomap_ok m \<Longrightarrow> gomap_ok (AList.delete k m)"
  by (rule distinct_delete)

text \<open>Every value of a map satisfies a predicate.\<close>

definition gomap_all :: "('v \<Rightarrow> bool) \<Rightarrow> 'v gomap \<Rightarrow> bool" where
  "gomap_all P m \<longleftrightarrow> list_all (\<lambda>kv. P (snd kv)) m"

lemma gomap_all_simps [simp]:
  "gomap_all P []"
  "gomap_all P (kv # m) \<longleftrightarrow> P (snd kv) \<and> gomap_all P m"
  by (simp_all add: gomap_all_def)

lemma gomap_all_update [simp]: "gomap_all P m \<Longrightarrow> P v \<Longrightarrow> gomap_all P (AList.update k v m)"
  by (induction m) auto

lemma gomap_all_lookup: "gomap_all P m \<Longrightarrow> map_of m k = Some v \<Longrightarrow> P v"
  by (induction m) (auto split: if_splits)

lemma keys_update [simp]: "fst ` set (AList.update k v m) = insert k (fst ` set m)"
  by (simp add: dom_update)

lemma update_new: "k \<notin> fst ` set m \<Longrightarrow> AList.update k v m = m @ [(k, v)]"
  by (induction m) auto

lemma update_last: "k \<notin> fst ` set m \<Longrightarrow> AList.update k w (m @ [(k, v)]) = m @ [(k, w)]"
  by (induction m) auto

lemma map_of_last: "k \<notin> fst ` set m \<Longrightarrow> map_of (m @ [(k, v)]) k = Some v"
  by (induction m) auto

lemma map_of_filter_key:
  "map_of (filter (\<lambda>(k, v). P k) m) k = (if P k then map_of m k else None)"
  by (induction m) auto

lemma map_of_perm:
  assumes "gomap_ok m" and "mset m' = mset m"
  shows "map_of m' = map_of m"
proof -
  have "gomap_ok m'"
    using assms by (metis mset_eq_imp_distinct_iff mset_map)
  with assms show ?thesis
    by (metis map_of_inject_set set_mset_mset)
qed

lemma sum_case_Inr [result_simps]:
  "(case r of Inl e \<Rightarrow> Inl (f e) | Inr x \<Rightarrow> g x) = Inr y \<longleftrightarrow> (\<exists>x. r = Inr x \<and> g x = Inr y)"
  by (cases r) auto

lemma if_Inl_Inr [result_simps]: "(if b then Inl e else r) = Inr y \<longleftrightarrow> \<not> b \<and> r = Inr y"
  by simp

lemma dropWhile_rev_snoc:
  "\<not> P x \<Longrightarrow> rev (dropWhile P (rev (xs @ [x]))) = xs @ [x]"
  by simp

lemma find_SomeD: "find P xs = Some x \<Longrightarrow> P x \<and> x \<in> set xs"
  by (induction xs) (auto split: if_splits)

lemma distinct_set_singleton:
  assumes "distinct xs" and "set xs = {x}"
  shows "xs = [x]"
proof (cases xs)
  case (Cons y ys)
  with assms(2) have "y = x" and "set ys \<subseteq> {x}" by auto
  moreover have "x \<notin> set ys" using Cons assms(1) \<open>y = x\<close> by simp
  ultimately have "set ys = {}" using subset_singletonD [of "set ys" x] by auto
  with Cons \<open>y = x\<close> show ?thesis by simp
qed (use assms in simp)

lemma drop_length_append: "drop (length xs) (xs @ ys) = ys"
  by simp

lemma takeWhile_append_sep: "c \<notin> set xs \<Longrightarrow> takeWhile (\<lambda>x. x \<noteq> c) (xs @ c # ys) = xs"
  by (induction xs) auto

lemma dropWhile_append_sep: "c \<notin> set xs \<Longrightarrow> dropWhile (\<lambda>x. x \<noteq> c) (xs @ c # ys) = c # ys"
  by (induction xs) auto

lemma takeWhile_neq_all: "c \<notin> set xs \<Longrightarrow> takeWhile (\<lambda>x. x \<noteq> c) xs = xs"
  by (induction xs) auto

lemma dropWhile_neq_all: "c \<notin> set xs \<Longrightarrow> dropWhile (\<lambda>x. x \<noteq> c) xs = []"
  by (induction xs) auto

end
