(* ===== verification/Go_Strings.thy ===== *)
theory Go_Strings
  imports Prelude
begin

text \<open>
  The part of Go's standard library for text that the program calls: \<^verbatim>\<open>strings\<close>, \<^verbatim>\<open>bytes\<close>,
  \<^verbatim>\<open>strconv\<close> and the line scanner of \<^verbatim>\<open>bufio\<close>. A Go string is a sequence of bytes, so it is a
  \<^typ>\<open>string\<close> here (a list of 8-bit characters), and every function below works on bytes as
  the original does. Where Go decodes UTF-8 (white space, case) the encodings are spelled out.
\<close>

section \<open>Searching and cutting\<close>

definition has_prefix :: "string \<Rightarrow> string \<Rightarrow> bool" where
  "has_prefix s p \<longleftrightarrow> take (length p) s = p"

definition has_suffix :: "string \<Rightarrow> string \<Rightarrow> bool" where
  "has_suffix s p \<longleftrightarrow> has_prefix (rev s) (rev p)"

definition trim_prefix :: "string \<Rightarrow> string \<Rightarrow> string" where
  "trim_prefix s p = (if has_prefix s p then drop (length p) s else s)"

definition trim_suffix :: "string \<Rightarrow> string \<Rightarrow> string" where
  "trim_suffix s p = (if has_suffix s p then take (length s - length p) s else s)"

text \<open>\<^verbatim>\<open>strings.Index\<close>: the first position at which the text occurs; \<open>None\<close> is Go's -1.\<close>

fun index_of :: "string \<Rightarrow> string \<Rightarrow> nat option" where
  "index_of [] sub = (if sub = [] then Some 0 else None)"
| "index_of (c # s) sub =
     (if has_prefix (c # s) sub then Some 0 else map_option Suc (index_of s sub))"

definition contains :: "string \<Rightarrow> string \<Rightarrow> bool" where
  "contains s sub \<longleftrightarrow> index_of s sub \<noteq> None"

text \<open>\<^verbatim>\<open>bytes.LastIndexByte\<close>.\<close>

definition last_index_byte :: "string \<Rightarrow> char \<Rightarrow> nat option" where
  "last_index_byte s c =
     (let k = length (takeWhile (\<lambda>x. x \<noteq> c) (rev s))
      in if k < length s then Some (length s - 1 - k) else None)"

text \<open>\<^verbatim>\<open>strings.SplitN(s, c, 2)\<close> for a text that contains the byte \<open>c\<close>.\<close>

definition cut_byte :: "char \<Rightarrow> string \<Rightarrow> string \<times> string" where
  "cut_byte c s = (takeWhile (\<lambda>x. x \<noteq> c) s, drop 1 (dropWhile (\<lambda>x. x \<noteq> c) s))"

text \<open>\<^verbatim>\<open>strings.Split\<close> and \<^verbatim>\<open>bytes.Split\<close> at a one-byte separator.\<close>

fun split_byte :: "char \<Rightarrow> string \<Rightarrow> string list" where
  "split_byte c [] = [[]]"
| "split_byte c (x # xs) =
     (if x = c then [] # split_byte c xs
      else case split_byte c xs of [] \<Rightarrow> [[x]] | w # ws \<Rightarrow> (x # w) # ws)"

text \<open>\<^verbatim>\<open>strings.ReplaceAll(s, old, "")\<close> for a non-empty \<open>old\<close>.\<close>

fun remove_all :: "string \<Rightarrow> string \<Rightarrow> string" where
  "remove_all old [] = []"
| "remove_all old (c # s) =
     (if old \<noteq> [] \<and> has_prefix (c # s) old then remove_all old (drop (length old - 1) s)
      else c # remove_all old s)"

text \<open>\<^verbatim>\<open>strings.Trim(s, cutset)\<close> for a one-byte cutset.\<close>

definition trim_byte :: "char \<Rightarrow> string \<Rightarrow> string" where
  "trim_byte c s = rev (dropWhile (\<lambda>x. x = c) (rev (dropWhile (\<lambda>x. x = c) s)))"

section \<open>White space\<close>

text \<open>
  The UTF-8 encodings of the code points \<^verbatim>\<open>unicode.IsSpace\<close> accepts: the six ASCII ones,
  U+0085, U+00A0, U+1680, U+2000 to U+200A, U+2028, U+2029, U+202F, U+205F and U+3000. A byte that
  starts one of them never occurs inside another code point, so trimming a decoded space is
  dropping one of these byte sequences.
\<close>

definition space_encodings :: "string list" where
  "space_encodings =
     [[CHR 0x09], [CHR 0x0A], [CHR 0x0B], [CHR 0x0C], [CHR 0x0D], [CHR 0x20],
      [CHR 0xC2, CHR 0x85], [CHR 0xC2, CHR 0xA0], [CHR 0xE1, CHR 0x9A, CHR 0x80],
      [CHR 0xE2, CHR 0x80, CHR 0x80], [CHR 0xE2, CHR 0x80, CHR 0x81],
      [CHR 0xE2, CHR 0x80, CHR 0x82], [CHR 0xE2, CHR 0x80, CHR 0x83],
      [CHR 0xE2, CHR 0x80, CHR 0x84], [CHR 0xE2, CHR 0x80, CHR 0x85],
      [CHR 0xE2, CHR 0x80, CHR 0x86], [CHR 0xE2, CHR 0x80, CHR 0x87],
      [CHR 0xE2, CHR 0x80, CHR 0x88], [CHR 0xE2, CHR 0x80, CHR 0x89],
      [CHR 0xE2, CHR 0x80, CHR 0x8A], [CHR 0xE2, CHR 0x80, CHR 0xA8],
      [CHR 0xE2, CHR 0x80, CHR 0xA9], [CHR 0xE2, CHR 0x80, CHR 0xAF],
      [CHR 0xE2, CHR 0x81, CHR 0x9F], [CHR 0xE3, CHR 0x80, CHR 0x80]]"

text \<open>The width of the space the text begins with, 0 when it begins with none.\<close>

definition space_width :: "string \<Rightarrow> nat" where
  "space_width s = (case find (has_prefix s) space_encodings of None \<Rightarrow> 0 | Some e \<Rightarrow> length e)"

definition space_width_end :: "string \<Rightarrow> nat" where
  "space_width_end s =
     (case find (\<lambda>e. has_prefix s (rev e)) space_encodings of None \<Rightarrow> 0 | Some e \<Rightarrow> length e)"

fun trim_left_by :: "(string \<Rightarrow> nat) \<Rightarrow> string \<Rightarrow> string" where
  "trim_left_by w [] = []"
| "trim_left_by w (c # s) =
     (if w (c # s) = 0 then c # s else trim_left_by w (drop (w (c # s) - 1) s))"

text \<open>\<^verbatim>\<open>strings.TrimSpace\<close>: the leading spaces, then the trailing ones.\<close>

definition trim_space :: "string \<Rightarrow> string" where
  "trim_space s = rev (trim_left_by space_width_end (rev (trim_left_by space_width s)))"

text \<open>\<^verbatim>\<open>strings.Fields\<close> and \<^verbatim>\<open>bytes.Fields\<close>: the maximal runs without a space.\<close>

fun fields_from :: "string \<Rightarrow> string \<Rightarrow> string list" where
  "fields_from [] cur = (if cur = [] then [] else [rev cur])"
| "fields_from (c # s) cur =
     (if space_width (c # s) = 0 then fields_from s (c # cur)
      else (if cur = [] then [] else [rev cur]) @ fields_from (drop (space_width (c # s) - 1) s) [])"

definition go_fields :: "string \<Rightarrow> string list" where
  "go_fields s = fields_from s []"

section \<open>Case\<close>

definition lower_byte :: "char \<Rightarrow> char" where
  "lower_byte c = (let n = of_char c :: int in if 65 \<le> n \<and> n \<le> 90 then char_of (n + 32) else c)"

text \<open>
  \<^verbatim>\<open>strings.ToLower\<close>, as far as a comparison with an ASCII text can tell: the ASCII capitals, and
  the only two other code points whose lower case is ASCII, U+0130 (to \<open>i\<close>) and U+212A (to
  \<open>k\<close>). Every other code point stays outside ASCII under Go's function and is left alone here.
  The program compares the result with ASCII constants only.
\<close>

fun to_lower :: "string \<Rightarrow> string" where
  "to_lower [] = []"
| "to_lower (c # s) =
     (if has_prefix (c # s) [CHR 0xC4, CHR 0xB0] then CHR ''i'' # to_lower (drop 1 s)
      else if has_prefix (c # s) [CHR 0xE2, CHR 0x84, CHR 0xAA] then CHR ''k'' # to_lower (drop 2 s)
      else lower_byte c # to_lower s)"

text \<open>UTF-8 decoding as \<^verbatim>\<open>utf8.DecodeRune\<close> does it: the code point and the bytes used after the
  first; an invalid sequence is U+FFFD and consumes one byte.\<close>

definition decode_rune :: "nat \<Rightarrow> nat list \<Rightarrow> nat \<times> nat" where
  "decode_rune b0 bs =
     (let cont = (\<lambda>b. 128 \<le> b \<and> b \<le> 191);
          lo = (if b0 = 224 then 160 else if b0 = 240 then 144 else 128);
          hi = (if b0 = 237 then 159 else if b0 = 244 then 143 else 191)
      in if b0 < 128 then (b0, 0)
         else if 194 \<le> b0 \<and> b0 \<le> 223 then
           (case bs of b1 # _ \<Rightarrow> if cont b1 then ((b0 - 192) * 64 + (b1 - 128), 1) else (65533, 0)
            | [] \<Rightarrow> (65533, 0))
         else if 224 \<le> b0 \<and> b0 \<le> 239 then
           (case bs of b1 # b2 # _ \<Rightarrow>
              if lo \<le> b1 \<and> b1 \<le> hi \<and> cont b2
              then ((b0 - 224) * 4096 + (b1 - 128) * 64 + (b2 - 128), 2) else (65533, 0)
            | _ \<Rightarrow> (65533, 0))
         else if 240 \<le> b0 \<and> b0 \<le> 244 then
           (case bs of b1 # b2 # b3 # _ \<Rightarrow>
              if lo \<le> b1 \<and> b1 \<le> hi \<and> cont b2 \<and> cont b3
              then ((b0 - 240) * 262144 + (b1 - 128) * 4096 + (b2 - 128) * 64 + (b3 - 128), 3)
              else (65533, 0)
            | _ \<Rightarrow> (65533, 0))
         else (65533, 0))"

fun decode_runes :: "nat list \<Rightarrow> nat list" where
  "decode_runes [] = []"
| "decode_runes (b # bs) =
     (case decode_rune b bs of (r, k) \<Rightarrow> r # decode_runes (drop k bs))"

text \<open>
  The class of a code point under simple case folding. ASCII letters fold to lower case, and
  U+017F and U+212A belong to the classes of \<open>s\<close> and \<open>k\<close>. For every other code point the
  class is a table of the Unicode database: \<open>sfold\<close> stands for it, as the smallest member of the
  code point's orbit under \<^verbatim>\<open>unicode.SimpleFold\<close>.
\<close>

definition fold_rune :: "(nat \<Rightarrow> nat) \<Rightarrow> nat \<Rightarrow> nat" where
  "fold_rune sfold r =
     (if 65 \<le> r \<and> r \<le> 90 then r + 32
      else if r < 128 then r
      else if r = 383 then 115
      else if r = 8490 then 107
      else if sfold r < 128 then r else sfold r)"

text \<open>\<^verbatim>\<open>strings.EqualFold\<close>.\<close>

definition fold_text :: "(nat \<Rightarrow> nat) \<Rightarrow> string \<Rightarrow> nat list" where
  "fold_text sfold s = map (fold_rune sfold) (decode_runes (map of_char s))"

definition equal_fold :: "(nat \<Rightarrow> nat) \<Rightarrow> string \<Rightarrow> string \<Rightarrow> bool" where
  "equal_fold sfold s t \<longleftrightarrow> fold_text sfold s = fold_text sfold t"

section \<open>Numbers\<close>

datatype num_error = ErrSyntax | ErrRange

definition digit_val :: "char \<Rightarrow> int option" where
  "digit_val c = (let n = of_char c :: int in if 48 \<le> n \<and> n \<le> 57 then Some (n - 48) else None)"

fun digits_val :: "int \<Rightarrow> string \<Rightarrow> int option" where
  "digits_val acc [] = Some acc"
| "digits_val acc (c # s) =
     (case digit_val c of None \<Rightarrow> None | Some d \<Rightarrow> digits_val (10 * acc + d) s)"

text \<open>
  \<^verbatim>\<open>strconv.ParseUint(s, 10, 64)\<close> and \<^verbatim>\<open>strconv.ParseInt(s, 10, 64)\<close>: the value, and the error
  beside it. On a syntax error the value is 0; out of range it is the nearest bound, as in Go.
\<close>

definition parse_uint64 :: "string \<Rightarrow> int \<times> num_error option" where
  "parse_uint64 s =
     (if s = [] then (0, Some ErrSyntax)
      else case digits_val 0 s of
        None \<Rightarrow> (0, Some ErrSyntax)
      | Some n \<Rightarrow> if n < 2 ^ 64 then (n, None) else (2 ^ 64 - 1, Some ErrRange))"

definition parse_int64 :: "string \<Rightarrow> int \<times> num_error option" where
  "parse_int64 s =
     (let neg = (case s of [] \<Rightarrow> False | c # _ \<Rightarrow> c = CHR ''-'');
          body = (case s of [] \<Rightarrow> [] | c # cs \<Rightarrow> if c = CHR ''-'' \<or> c = CHR ''+'' then cs else s)
      in case (if body = [] then None else digits_val 0 body) of
           None \<Rightarrow> (0, Some ErrSyntax)
         | Some n \<Rightarrow>
             if \<not> neg \<and> 2 ^ 63 \<le> n then (2 ^ 63 - 1, Some ErrRange)
             else if neg \<and> 2 ^ 63 < n then (- (2 ^ 63), Some ErrRange)
             else (if neg then - n else n, None))"

text \<open>\<^verbatim>\<open>strconv.Atoi\<close> on a 64-bit platform.\<close>

definition atoi :: "string \<Rightarrow> int \<times> num_error option" where
  "atoi s = parse_int64 s"

fun digits_of :: "nat \<Rightarrow> string" where
  "digits_of n = (if n < 10 then [char_of (48 + n)] else digits_of (n div 10) @ [char_of (48 + n mod 10)])"

declare digits_of.simps [simp del]

text \<open>\<^verbatim>\<open>strconv.Itoa\<close>.\<close>

definition itoa :: "int \<Rightarrow> string" where
  "itoa i = (if i < 0 then CHR ''-'' # digits_of (nat (- i)) else digits_of (nat i))"

section \<open>Lines\<close>

text \<open>
  \<^verbatim>\<open>bufio.Scanner\<close> with its default split function: lines end at a newline, one trailing
  carriage return is dropped, a last line without a newline counts when it is not empty. The
  scanner's buffer holds \<^verbatim>\<open>MaxScanTokenSize\<close> bytes; a line that fills it before its newline is
  seen stops the scan with \<^verbatim>\<open>ErrTooLong\<close>, which is \<open>None\<close> here.
\<close>

definition max_scan_token_size :: int where
  "max_scan_token_size = 64 * 1024"

definition drop_cr :: "string \<Rightarrow> string" where
  "drop_cr l = (if l \<noteq> [] \<and> last l = CHR 0x0D then butlast l else l)"

definition raw_lines :: "string \<Rightarrow> string list" where
  "raw_lines s =
     (let ls = split_byte CHR 0x0A s in if last ls = [] then butlast ls else ls)"

definition scan_lines :: "string \<Rightarrow> string list option" where
  "scan_lines s =
     (if \<exists>l \<in> set (raw_lines s). max_scan_token_size \<le> int (length l) then None
      else Some (map drop_cr (raw_lines s)))"

section \<open>Facts about searching and cutting\<close>

lemma has_prefix_append [simp]: "has_prefix (p @ s) p"
  by (simp add: has_prefix_def)

lemma has_prefix_Cons [simp]: "has_prefix (c # s) (d # p) \<longleftrightarrow> c = d \<and> has_prefix s p"
  by (auto simp: has_prefix_def)

lemma has_prefix_Nil [simp]: "has_prefix s []" "has_prefix [] p \<longleftrightarrow> p = []"
  by (auto simp: has_prefix_def)

lemma has_prefix_iff: "has_prefix s p \<longleftrightarrow> (\<exists>t. s = p @ t)"
  by (metis append_take_drop_id has_prefix_append has_prefix_def)

lemma has_suffix_iff: "has_suffix s p \<longleftrightarrow> (\<exists>t. s = t @ p)"
  unfolding has_suffix_def has_prefix_iff by (metis rev_append rev_rev_ident)

lemma has_suffix_snoc [simp]: "has_suffix (s @ [c]) [d] \<longleftrightarrow> c = d"
  by (simp add: has_suffix_def)

lemma trim_suffix_append [simp]: "trim_suffix (s @ p) p = s"
  by (auto simp: trim_suffix_def has_suffix_iff)

lemma trim_prefix_append [simp]: "trim_prefix (p @ s) p = s"
  by (simp add: trim_prefix_def)

lemma index_of_hd: "c \<notin> set s \<Longrightarrow> index_of (s @ c # sub @ t) (c # sub) = Some (length s)"
  by (induction s) auto

lemma index_of_Some: "index_of s sub = Some i \<Longrightarrow> \<exists>t. s = take i s @ sub @ t"
proof (induction s arbitrary: i)
  case (Cons c s)
  then show ?case by (auto simp: has_prefix_iff split: if_splits)
qed (auto split: if_splits)

lemma contains_iff: "contains s sub \<longleftrightarrow> (\<exists>a b. s = a @ sub @ b)"
proof
  assume "contains s sub"
  then show "\<exists>a b. s = a @ sub @ b"
    unfolding contains_def using index_of_Some by blast
next
  assume "\<exists>a b. s = a @ sub @ b"
  then obtain a b where s: "s = a @ sub @ b" by blast
  show "contains s sub"
    unfolding s contains_def
  proof (induction a)
    case Nil
    then show ?case using has_prefix_append [of sub b] by (cases "sub @ b") auto
  qed auto
qed

lemma contains_byte: "contains s [c] \<longleftrightarrow> c \<in> set s"
  unfolding contains_iff by (metis append_Cons append_Nil in_set_conv_decomp)

lemma cut_byte_append: "c \<notin> set a \<Longrightarrow> cut_byte c (a @ c # b) = (a, b)"
  by (simp add: cut_byte_def takeWhile_append_sep dropWhile_append_sep)

lemma remove_all_hd: "c \<notin> set s \<Longrightarrow> remove_all (c # old) s = s"
  by (induction s) auto

lemma trim_byte_edges:
  assumes "s = [] \<or> hd s \<noteq> c \<and> last s \<noteq> c"
  shows "trim_byte c s = s"
proof (cases "s = []")
  case False
  with assms have "dropWhile (\<lambda>x. x = c) s = s" by (cases s) simp_all
  moreover from False assms have "dropWhile (\<lambda>x. x = c) (rev s) = rev s"
    by (cases s rule: rev_cases) simp_all
  ultimately show ?thesis by (simp add: trim_byte_def)
qed (simp add: trim_byte_def)

section \<open>Facts about white space\<close>

text \<open>A visible character is printable ASCII other than the space; no encoding of a space begins
  or ends with one.\<close>

definition visible :: "char \<Rightarrow> bool" where
  "visible c \<longleftrightarrow> (let n = of_char c :: int in 33 \<le> n \<and> n \<le> 126)"

definition blank :: "char \<Rightarrow> bool" where
  "blank c \<longleftrightarrow> c = CHR '' '' \<or> c = CHR 0x09"

definition visible_edges :: "string \<Rightarrow> bool" where
  "visible_edges s \<longleftrightarrow> s \<noteq> [] \<and> visible (hd s) \<and> visible (last s)"

lemma space_encodings_edges:
  "list_all (\<lambda>e. e \<noteq> [] \<and> \<not> visible (hd e) \<and> \<not> visible (last e)) space_encodings"
  by code_simp

lemma space_width_visible: "visible c \<Longrightarrow> space_width (c # s) = 0"
proof -
  assume c: "visible c"
  have "\<not> has_prefix (c # s) e" if "e \<in> set space_encodings" for e
    using space_encodings_edges that c by (cases e) (auto simp: list_all_iff)
  then have "find (has_prefix (c # s)) space_encodings = None"
    by (auto simp: find_None_iff)
  then show ?thesis by (simp add: space_width_def)
qed

lemma space_width_end_visible: "visible c \<Longrightarrow> space_width_end (c # s) = 0"
proof -
  assume c: "visible c"
  have "\<not> has_prefix (c # s) (rev e)" if "e \<in> set space_encodings" for e
    using space_encodings_edges that c by (cases e rule: rev_cases) (auto simp: list_all_iff)
  then have "find (\<lambda>e. has_prefix (c # s) (rev e)) space_encodings = None"
    by (auto simp: find_None_iff)
  then show ?thesis by (simp add: space_width_end_def)
qed

lemma space_width_blank:
  assumes "blank c"
  shows "space_width (c # s) = 1" and "space_width_end (c # s) = 1"
proof -
  have "find P space_encodings = Some [c]" if P: "\<And>d. P [d] \<longleftrightarrow> c = d" for P
    using assms by (auto simp: P blank_def space_encodings_def)
  from this [of "has_prefix (c # s)"] this [of "\<lambda>e. has_prefix (c # s) (rev e)"]
  show "space_width (c # s) = 1" and "space_width_end (c # s) = 1"
    by (auto simp: space_width_def space_width_end_def)
qed

lemma trim_left_blanks:
  assumes "\<forall>c \<in> set a. blank c"
  shows "trim_left_by space_width (a @ s) = trim_left_by space_width s"
    and "trim_left_by space_width_end (a @ s) = trim_left_by space_width_end s"
  using assms by (induction a) (simp_all add: space_width_blank)

lemma trim_space_pad:
  assumes "visible_edges s" and "\<forall>c \<in> set a. blank c" and "\<forall>c \<in> set b. blank c"
  shows "trim_space (a @ s @ b) = s"
proof -
  from assms(1) have hd: "trim_left_by space_width (s @ b) = s @ b"
    by (cases s) (auto simp: visible_edges_def space_width_visible)
  from assms(1) have last: "trim_left_by space_width_end (rev s) = rev s"
    by (cases s rule: rev_cases) (auto simp: visible_edges_def space_width_end_visible)
  have "trim_left_by space_width (a @ s @ b) = s @ b"
    using trim_left_blanks(1) [OF assms(2), of "s @ b"] hd by simp
  moreover have "trim_left_by space_width_end (rev b @ rev s) = rev s"
    using trim_left_blanks(2) [of "rev b" "rev s"] assms(3) last by simp
  ultimately show ?thesis by (simp add: trim_space_def)
qed

lemma trim_space_visible: "visible_edges s \<Longrightarrow> trim_space s = s"
  using trim_space_pad [of s "[]" "[]"] by simp

lemma trim_space_blanks: "\<forall>c \<in> set a. blank c \<Longrightarrow> trim_space a = []"
  using trim_left_blanks(1) [of a "[]"] by (simp add: trim_space_def)

section \<open>Facts about lines and numbers\<close>

definition unlines :: "string list \<Rightarrow> string" where
  "unlines ls = concat (map (\<lambda>l. l @ [CHR 0x0A]) ls)"

lemma split_unlines:
  "\<forall>l \<in> set ls. CHR 0x0A \<notin> set l \<Longrightarrow> split_byte CHR 0x0A (unlines ls) = ls @ [[]]"
proof (induction ls)
  case (Cons l ls)
  have "split_byte CHR 0x0A (l @ CHR 0x0A # unlines ls) = l # split_byte CHR 0x0A (unlines ls)"
    using Cons.prems by (induction l) (auto split: list.splits)
  with Cons show ?case by (simp add: unlines_def)
qed (simp add: unlines_def)

lemma scan_unlines:
  assumes "\<forall>l \<in> set ls. CHR 0x0A \<notin> set l \<and> int (length l) < max_scan_token_size \<and> l \<noteq> [] \<and> last l \<noteq> CHR 0x0D"
  shows "scan_lines (unlines ls) = Some ls"
proof -
  have raw: "raw_lines (unlines ls) = ls"
    using assms by (simp add: raw_lines_def split_unlines)
  have "map drop_cr ls = ls"
    using assms by (intro map_idI) (auto simp: drop_cr_def)
  with raw assms show ?thesis by (auto simp: scan_lines_def not_le)
qed

lemma of_char_int: "(of_char c :: int) = int (of_char c)"
  by (cases c) (simp add: of_char_def)

lemma digit_val_char: "d < 10 \<Longrightarrow> digit_val (char_of (48 + d :: nat)) = Some (int d)"
  by (simp add: digit_val_def of_char_int)

lemma digits_val_append:
  "digits_val acc (s @ [char_of (48 + d :: nat)]) =
     (case digits_val acc s of None \<Rightarrow> None | Some n \<Rightarrow> Some (10 * n + int d))" if "d < 10"
  using that by (induction s arbitrary: acc) (auto simp: digit_val_char split: option.splits)

lemma digits_val_digits_of: "digits_val 0 (digits_of n) = Some (int n)"
proof (induction n rule: digits_of.induct)
  case (1 n)
  show ?case
  proof (cases "n < 10")
    case True
    then show ?thesis by (simp add: digits_of.simps [of n] digit_val_char)
  next
    case False
    with 1 have "digits_val 0 (digits_of (n div 10)) = Some (int (n div 10))" by simp
    moreover have "10 * int (n div 10) + int (n mod 10) = int n" by presburger
    ultimately show ?thesis
      using False by (simp add: digits_of.simps [of n] digits_val_append)
  qed
qed

lemma digits_of_hd: "digits_of n \<noteq> [] \<and> digit_val (hd (digits_of n)) \<noteq> None"
proof (induction n rule: digits_of.induct)
  case (1 n)
  then show ?case
    by (cases "n < 10") (simp_all add: digits_of.simps [of n] digit_val_char)
qed

text \<open>Printing a number and reading it back.\<close>

lemma parse_int64_itoa:
  assumes "- (2 ^ 63) \<le> i" and "i < 2 ^ 63"
  shows "parse_int64 (itoa i) = (i, None)"
proof (cases "i < 0")
  case True
  with assms show ?thesis
    using digits_of_hd [of "nat (- i)"] by (simp add: itoa_def parse_int64_def digits_val_digits_of)
next
  case False
  obtain c s where cs: "digits_of (nat i) = c # s" and "digit_val c \<noteq> None"
    using digits_of_hd [of "nat i"] by (cases "digits_of (nat i)") auto
  then have "c \<noteq> CHR ''-''" and "c \<noteq> CHR ''+''" by (auto simp: digit_val_def)
  with False assms cs digits_val_digits_of [of "nat i"] show ?thesis
    by (simp add: itoa_def parse_int64_def)
qed

lemma digit_visible: "digit_val c \<noteq> None \<Longrightarrow> visible c"
  by (auto simp: digit_val_def visible_def Let_def split: if_splits)

lemma digits_of_digit: "c \<in> set (digits_of n) \<Longrightarrow> digit_val c \<noteq> None"
proof (induction n rule: digits_of.induct)
  case (1 n)
  then show ?case
    by (cases "n < 10") (auto simp: digits_of.simps [of n] digit_val_char)
qed

section \<open>Facts about fields\<close>

lemma fields_from_visible:
  assumes "\<forall>c \<in> set f. visible c"
  shows "fields_from (f @ s) cur = fields_from s (rev f @ cur)"
  using assms by (induction f arbitrary: cur) (simp_all add: space_width_visible)

lemma fields_from_blanks:
  assumes "\<forall>c \<in> set a. blank c"
  shows "fields_from (a @ s) [] = fields_from s []"
  using assms by (induction a) (simp_all add: space_width_blank)

lemma go_fields_first:
  assumes "\<forall>c \<in> set a. blank c" and "f \<noteq> []" and "\<forall>c \<in> set f. visible c" and "blank c"
  shows "\<exists>fs. go_fields (a @ f @ c # s) = f # fs"
  using assms by (simp add: go_fields_def fields_from_blanks fields_from_visible space_width_blank)

end
