(* ===== verification/Go_Path.thy ===== *)
theory Go_Path
  imports Go_Strings
begin

text \<open>
  The functions of Go's \<^verbatim>\<open>path/filepath\<close> the program calls, on Unix (the separator is a slash and
  there are no volume names), and what the components need of them: cleaning is idempotent, a
  cleaned absolute path is the list of its names, and taking the parent directory drops the last
  name, so that walking up from any path ends.
\<close>

abbreviation slash :: char where
  "slash \<equiv> CHR ''/''"

fun join_slash :: "string list \<Rightarrow> string" where
  "join_slash [] = []"
| "join_slash [w] = w"
| "join_slash (w # v # ws) = w @ slash # join_slash (v # ws)"

text \<open>
  \<^verbatim>\<open>filepath.Clean\<close>: the elements of the path are pushed on a stack (last pushed first); empty and
  \<open>.\<close> elements are skipped, \<open>..\<close> removes the element before it, is dropped at the root, and is
  kept where a relative path has nothing left to remove.
\<close>

definition clean_step :: "bool \<Rightarrow> string list \<Rightarrow> string \<Rightarrow> string list" where
  "clean_step rooted st w =
     (if w = [] \<or> w = ''.'' then st
      else if w = ''..'' then
        (case st of
           [] \<Rightarrow> if rooted then [] else [''..'']
         | t # rest \<Rightarrow> if t = ''..'' then ''..'' # st else rest)
      else w # st)"

definition is_abs :: "string \<Rightarrow> bool" where
  "is_abs p \<longleftrightarrow> has_prefix p ''/''"

definition clean_elems :: "string \<Rightarrow> string list" where
  "clean_elems p = rev (foldl (clean_step (is_abs p)) [] (split_byte slash p))"

definition clean :: "string \<Rightarrow> string" where
  "clean p =
     (if is_abs p then slash # join_slash (clean_elems p)
      else if clean_elems p = [] then ''.''
      else join_slash (clean_elems p))"

text \<open>\<^verbatim>\<open>filepath.Dir\<close>: everything up to the last slash, cleaned.\<close>

definition up_to_slash :: "string \<Rightarrow> string" where
  "up_to_slash p = rev (dropWhile (\<lambda>c. c \<noteq> slash) (rev p))"

definition dir :: "string \<Rightarrow> string" where
  "dir p = clean (up_to_slash p)"

text \<open>\<^verbatim>\<open>filepath.Base\<close>: the last element, trailing slashes removed first.\<close>

definition base :: "string \<Rightarrow> string" where
  "base p =
     (if p = [] then ''.''
      else let q = rev (dropWhile (\<lambda>c. c = slash) (rev p));
               b = rev (takeWhile (\<lambda>c. c \<noteq> slash) (rev q))
           in if b = [] then ''/'' else b)"

text \<open>A name is one element of a cleaned path; an absolute path is written from its names.\<close>

definition path_name :: "string \<Rightarrow> bool" where
  "path_name w \<longleftrightarrow> w \<noteq> [] \<and> w \<noteq> ''.'' \<and> w \<noteq> ''..'' \<and> slash \<notin> set w"

definition abs_path :: "string list \<Rightarrow> string" where
  "abs_path ws = slash # join_slash ws"

section \<open>Splitting and joining\<close>

lemma split_byte_not_Nil [simp]: "split_byte c s \<noteq> []"
  by (induction s) (auto split: list.splits)

lemma split_byte_no_sep: "w \<in> set (split_byte c s) \<Longrightarrow> c \<notin> set w"
  by (induction s arbitrary: w) (auto split: list.splits if_splits)

lemma split_byte_plain: "c \<notin> set w \<Longrightarrow> split_byte c w = [w]"
  by (induction w) auto

lemma split_byte_sep: "c \<notin> set w \<Longrightarrow> split_byte c (w @ c # s) = w # split_byte c s"
  by (induction w) (auto split: list.splits)

lemma split_join_slash:
  "ws \<noteq> [] \<Longrightarrow> \<forall>w \<in> set ws. slash \<notin> set w \<Longrightarrow> split_byte slash (join_slash ws) = ws"
  by (induction ws rule: join_slash.induct) (auto simp: split_byte_plain split_byte_sep)

lemma join_split_slash: "join_slash (split_byte slash s) = s"
proof (induction s)
  case (Cons x s)
  then show ?case
    by (cases "split_byte slash s" rule: join_slash.cases) auto
qed simp

lemma join_slash_eq_Nil: "\<forall>w \<in> set ws. w \<noteq> [] \<Longrightarrow> join_slash ws = [] \<longleftrightarrow> ws = []"
  by (cases ws rule: join_slash.cases) auto

lemma length_join_slash: "length (join_slash ws) = (\<Sum>w\<leftarrow>ws. length w) + (length ws - 1)"
  by (induction ws rule: join_slash.induct) auto

lemma join_slash_snoc: "ws \<noteq> [] \<Longrightarrow> join_slash (ws @ [w]) = join_slash ws @ slash # w"
  by (induction ws rule: join_slash.induct) auto

section \<open>The elements of a cleaned path\<close>

text \<open>On the stack the names come first, then, in a relative path, the \<open>..\<close> elements.\<close>

definition clean_stack :: "bool \<Rightarrow> string list \<Rightarrow> bool" where
  "clean_stack rooted st \<longleftrightarrow>
     (\<exists>ns k. st = ns @ replicate k ''..'' \<and> (\<forall>w \<in> set ns. path_name w) \<and> (rooted \<longrightarrow> k = 0))"

lemma clean_stackI:
  "(\<forall>w \<in> set ns. path_name w) \<Longrightarrow> (rooted \<longrightarrow> k = 0) \<Longrightarrow> clean_stack rooted (ns @ replicate k ''..'')"
  unfolding clean_stack_def by blast

lemma clean_step_stack:
  assumes "clean_stack rooted st" and "slash \<notin> set w"
  shows "clean_stack rooted (clean_step rooted st w)"
proof -
  from assms obtain ns k where st: "st = ns @ replicate k ''..''" and
      ns: "\<forall>w \<in> set ns. path_name w" and k: "rooted \<longrightarrow> k = 0"
    unfolding clean_stack_def by blast
  consider (skip) "w = [] \<or> w = ''.''" | (up) "w = ''..''" | (name) "path_name w"
    using assms(2) by (auto simp: path_name_def)
  then show ?thesis
  proof cases
    case skip
    with assms(1) show ?thesis by (simp add: clean_step_def)
  next
    case up
    show ?thesis
    proof (cases ns)
      case Nil
      with up st k clean_stackI [of "[]" rooted "Suc k"] clean_stackI [of "[]" rooted 0]
      show ?thesis by (cases k) (auto simp: clean_step_def)
    next
      case (Cons n ns')
      with up st ns k clean_stackI [of ns' rooted k] show ?thesis
        by (auto simp: clean_step_def path_name_def)
    qed
  next
    case name
    with ns st k clean_stackI [of "w # ns" rooted k] show ?thesis
      by (auto simp: clean_step_def path_name_def)
  qed
qed

lemma foldl_clean_stack:
  "clean_stack rooted st \<Longrightarrow> \<forall>w \<in> set ws. slash \<notin> set w \<Longrightarrow>
   clean_stack rooted (foldl (clean_step rooted) st ws)"
  by (induction ws arbitrary: st) (auto simp: clean_step_stack)

lemma clean_elems_stack: "clean_stack (is_abs p) (rev (clean_elems p))"
proof -
  have "clean_stack (is_abs p) []"
    using clean_stackI [of "[]" "is_abs p" 0] by simp
  then show ?thesis
    by (simp add: clean_elems_def foldl_clean_stack split_byte_no_sep)
qed

lemma foldl_clean_stack_id:
  "clean_stack rooted (rev ws @ st) \<Longrightarrow> foldl (clean_step rooted) st ws = rev ws @ st"
proof (induction ws arbitrary: st)
  case (Cons w ws)
  from Cons.prems obtain ns k where eq: "rev ws @ w # st = ns @ replicate k ''..''" and
      ns: "\<forall>w \<in> set ns. path_name w" and k: "rooted \<longrightarrow> k = 0"
    unfolding clean_stack_def by auto
  have "clean_step rooted st w = w # st"
  proof (cases "length ws < length ns")
    case True
    with eq have "w = ns ! length ws"
      by (metis nth_append nth_append_length length_rev)
    with ns True have "path_name w" by auto
    then show ?thesis by (simp add: clean_step_def path_name_def)
  next
    case False
    then obtain m where m: "length ws = length ns + m" using le_Suc_ex by (metis not_less)
    have "drop (length ws) (rev ws @ w # st) = drop m (replicate k ''..'')"
      using m by (simp add: eq)
    then have tail: "w # st = replicate (k - m) ''..''" by simp
    then obtain j where j: "k - m = Suc j" by (cases "k - m") auto
    with tail have "w = ''..''" and "st = replicate j ''..''" by simp_all
    moreover from j k have "\<not> rooted" by auto
    ultimately show ?thesis by (cases j) (auto simp: clean_step_def)
  qed
  with Cons show ?case by simp
qed simp

section \<open>Cleaning is idempotent\<close>

lemma is_abs_Cons [simp]: "is_abs (c # s) \<longleftrightarrow> c = slash"
  by (simp add: is_abs_def has_prefix_def)

lemma is_abs_Nil [simp]: "\<not> is_abs []"
  by (simp add: is_abs_def has_prefix_def)

lemma clean_stack_elem:
  assumes "clean_stack rooted st" and "w \<in> set st"
  shows "w \<noteq> [] \<and> slash \<notin> set w"
proof -
  from assms have "path_name w \<or> w = ''..''"
    unfolding clean_stack_def by (force split: if_splits)
  then show ?thesis by (auto simp: path_name_def)
qed

lemma is_abs_join_slash:
  "\<forall>w \<in> set ws. w \<noteq> [] \<and> slash \<notin> set w \<Longrightarrow> \<not> is_abs (join_slash ws)"
  by (cases ws rule: join_slash.cases; cases "hd ws") auto

lemma clean_elems_join:
  assumes "clean_stack rooted (rev ws)" and "ws \<noteq> []"
  shows "foldl (clean_step rooted) [] (split_byte slash (join_slash ws)) = rev ws"
proof -
  have "\<forall>w \<in> set ws. slash \<notin> set w"
    using clean_stack_elem [OF assms(1)] by auto
  with assms show ?thesis
    by (simp add: split_join_slash foldl_clean_stack_id)
qed

lemma clean_elems_slash:
  assumes "clean_stack True (rev ws)"
  shows "clean_elems (slash # join_slash ws) = ws"
proof (cases ws)
  case Nil
  then show ?thesis by (simp add: clean_elems_def clean_step_def)
next
  case Cons
  then have "foldl (clean_step True) [] (split_byte slash (join_slash ws)) = rev ws"
    by (intro clean_elems_join [OF assms]) simp
  then show ?thesis by (simp add: clean_elems_def clean_step_def)
qed

lemma clean_elems_relative:
  assumes "clean_stack False (rev ws)" and "ws \<noteq> []"
  shows "clean_elems (join_slash ws) = ws" and "\<not> is_abs (join_slash ws)"
proof -
  show na: "\<not> is_abs (join_slash ws)"
    using clean_stack_elem [OF assms(1)] by (intro is_abs_join_slash) auto
  then show "clean_elems (join_slash ws) = ws"
    using clean_elems_join [OF assms] by (simp add: clean_elems_def)
qed

theorem clean_idem [simp]: "clean (clean p) = clean p"
proof (cases "is_abs p")
  case True
  with clean_elems_stack [of p] have "clean_elems (slash # join_slash (clean_elems p)) = clean_elems p"
    by (simp add: clean_elems_slash)
  with True show ?thesis by (simp add: clean_def)
next
  case False
  show ?thesis
  proof (cases "clean_elems p = []")
    case True
    with False show ?thesis
      by (simp add: clean_def) (simp add: clean_elems_def clean_step_def)
  next
    case ne: False
    with False clean_elems_stack [of p]
    have "clean_elems (join_slash (clean_elems p)) = clean_elems p"
      and "\<not> is_abs (join_slash (clean_elems p))"
      by (simp_all add: clean_elems_relative)
    with False ne show ?thesis by (simp add: clean_def)
  qed
qed

section \<open>Absolute paths as lists of names\<close>

lemma clean_stack_rooted: "clean_stack True st \<longleftrightarrow> (\<forall>w \<in> set st. path_name w)"
  unfolding clean_stack_def by auto

lemma clean_abs:
  assumes "is_abs p"
  shows "clean p = abs_path (clean_elems p)" and "\<forall>w \<in> set (clean_elems p). path_name w"
  using assms clean_elems_stack [of p] by (simp_all add: clean_def abs_path_def clean_stack_rooted)

lemma clean_abs_path:
  "\<forall>w \<in> set ws. path_name w \<Longrightarrow> clean (abs_path ws) = abs_path ws"
  by (simp add: clean_def abs_path_def clean_elems_slash clean_stack_rooted)

lemma is_abs_clean [simp]: "is_abs (clean p) \<longleftrightarrow> is_abs p"
proof (cases "is_abs p")
  case False
  then show ?thesis
    using clean_elems_stack [of p] clean_elems_relative(2) [of "clean_elems p"]
    by (auto simp: clean_def)
qed (simp add: clean_def)

lemma up_to_slash_snoc: "slash \<notin> set w \<Longrightarrow> up_to_slash (s @ slash # w) = s @ [slash]"
  by (simp add: up_to_slash_def dropWhile_append_sep)

lemma clean_elems_snoc_slash: "is_abs s \<Longrightarrow> clean_elems (s @ [slash]) = clean_elems s"
proof -
  assume s: "is_abs s"
  have "split_byte slash (s @ [slash]) = split_byte slash s @ [[]]"
    by (induction s) (auto split: list.splits)
  with s show ?thesis
    by (cases s) (simp_all add: clean_elems_def clean_step_def)
qed

lemma dir_abs_snoc:
  assumes "\<forall>v \<in> set ws. path_name v" and "path_name w"
  shows "dir (abs_path (ws @ [w])) = abs_path ws"
proof (cases "ws = []")
  case True
  with assms(2) have "up_to_slash (abs_path (ws @ [w])) = ''/''"
    using up_to_slash_snoc [of w "[]"] by (simp add: abs_path_def path_name_def)
  with True show ?thesis by (simp add: dir_def clean_abs_path [of "[]", unfolded abs_path_def, simplified] abs_path_def)
next
  case False
  have "up_to_slash (abs_path (ws @ [w])) = abs_path ws @ [slash]"
    using False assms(2) up_to_slash_snoc [of w "abs_path ws"]
    by (simp add: abs_path_def path_name_def join_slash_snoc)
  moreover have "clean (abs_path ws @ [slash]) = clean (abs_path ws)"
    using clean_elems_snoc_slash [of "abs_path ws"] by (simp add: clean_def abs_path_def)
  ultimately show ?thesis using assms(1) by (simp add: dir_def clean_abs_path)
qed

lemma dir_root [simp]: "dir (abs_path []) = abs_path []"
  by (simp add: dir_def abs_path_def up_to_slash_def clean_def clean_elems_def clean_step_def)

lemma abs_path_inj:
  assumes "\<forall>v \<in> set vs. path_name v" and "\<forall>w \<in> set ws. path_name w" and "abs_path vs = abs_path ws"
  shows "vs = ws"
proof -
  have "clean_elems (abs_path us) = us" if "\<forall>u \<in> set us. path_name u" for us
    using that unfolding abs_path_def by (simp add: clean_elems_slash clean_stack_rooted)
  with assms show ?thesis by metis
qed

section \<open>Walking up ends\<close>

text \<open>
  Every step from a path to its parent that changes the path makes \<open>path_measure\<close> smaller, whatever
  the path: this is why the loop of \<^verbatim>\<open>trustedAncestors\<close> ends.
\<close>

definition elems_weight :: "string list \<Rightarrow> nat" where
  "elems_weight ws = (\<Sum>w\<leftarrow>ws. if w = [] then 0 else Suc (length w))"

definition path_measure :: "string \<Rightarrow> nat" where
  "path_measure p = (if p = ''.'' then 0 else Suc (length p))"

lemma elems_weight_simps [simp]:
  "elems_weight [] = 0"
  "elems_weight (w # ws) = (if w = [] then 0 else Suc (length w)) + elems_weight ws"
  "elems_weight (vs @ ws) = elems_weight vs + elems_weight ws"
  "elems_weight (rev ws) = elems_weight ws"
  by (simp_all add: elems_weight_def sum_list_rev flip: rev_map)

lemma clean_step_weight: "elems_weight (clean_step r st w) \<le> elems_weight st + elems_weight [w]"
  by (cases st) (auto simp: clean_step_def)

lemma foldl_clean_weight:
  "elems_weight (foldl (clean_step r) st ws) \<le> elems_weight st + elems_weight ws"
proof (induction ws arbitrary: st)
  case (Cons w ws)
  from Cons [of "clean_step r st w"] clean_step_weight [of r st w] show ?case by simp
qed simp

lemma clean_elems_weight: "elems_weight (clean_elems p) \<le> elems_weight (split_byte slash p)"
  using foldl_clean_weight [of "is_abs p" "[]" "split_byte slash p"] by (simp add: clean_elems_def)

lemma split_weight: "elems_weight (split_byte slash s) \<le> Suc (length s)"
proof -
  have "elems_weight ws \<le> (\<Sum>w\<leftarrow>ws. Suc (length w))" for ws
    by (induction ws) auto
  moreover have "(\<Sum>w\<leftarrow>split_byte slash s. Suc (length w)) = Suc (length s)"
    by (induction s) (auto split: list.splits)
  ultimately show ?thesis by metis
qed

lemma split_byte_snoc: "split_byte c (s @ [c]) = split_byte c s @ [[]]"
  by (induction s) (auto split: list.splits)

lemma length_join_weight:
  "\<forall>w \<in> set ws. w \<noteq> [] \<Longrightarrow> length (join_slash ws) = elems_weight ws - 1"
  by (induction ws rule: join_slash.induct) auto

lemma clean_elems_nonempty: "\<forall>w \<in> set (clean_elems p). w \<noteq> []"
  using clean_stack_elem [OF clean_elems_stack [of p]] by auto

lemma clean_snoc_slash_shorter:
  assumes "p \<noteq> []"
  shows "path_measure (clean (p @ [slash])) \<le> Suc (length p)"
proof -
  have w: "elems_weight (clean_elems (p @ [slash])) \<le> elems_weight (split_byte slash p)"
    using clean_elems_weight [of "p @ [slash]"] by (simp add: split_byte_snoc)
  have len: "length (join_slash (clean_elems (p @ [slash]))) = elems_weight (clean_elems (p @ [slash])) - 1"
    by (rule length_join_weight) (rule clean_elems_nonempty)
  show ?thesis
  proof (cases "is_abs p")
    case True
    then obtain q where q: "p = slash # q" by (cases p) auto
    then have "elems_weight (split_byte slash p) \<le> Suc (length q)"
      using split_weight [of q] by simp
    with w len q show ?thesis by (auto simp: clean_def path_measure_def)
  next
    case False
    with assms have "\<not> is_abs (p @ [slash])" by (cases p) auto
    with w len split_weight [of p] show ?thesis by (auto simp: clean_def path_measure_def)
  qed
qed

lemma up_to_slash_cases:
  "up_to_slash d = [] \<or> (\<exists>q r. up_to_slash d = q @ [slash] \<and> d = q @ slash # r)"
proof -
  have d: "d = up_to_slash d @ rev (takeWhile (\<lambda>c. c \<noteq> slash) (rev d))"
    unfolding up_to_slash_def by (metis rev_append rev_rev_ident takeWhile_dropWhile_id)
  show ?thesis
  proof (cases "dropWhile (\<lambda>c. c \<noteq> slash) (rev d)")
    case (Cons x xs)
    then have "x = slash" using hd_dropWhile [of "\<lambda>c. c \<noteq> slash" "rev d"] by auto
    with Cons have u: "up_to_slash d = rev xs @ [slash]" by (simp add: up_to_slash_def)
    with d have "d = rev xs @ slash # rev (takeWhile (\<lambda>c. c \<noteq> slash) (rev d))"
      by (metis append.assoc append_Cons append_Nil)
    with u show ?thesis by blast
  qed (simp add: up_to_slash_def)
qed

lemma clean_Nil [simp]: "clean [] = ''.''"
  by (simp add: clean_def clean_elems_def clean_step_def)

lemma dir_measure:
  assumes "dir d \<noteq> d"
  shows "path_measure (dir d) < path_measure d"
proof (cases "up_to_slash d = []")
  case True
  with assms show ?thesis by (simp add: dir_def path_measure_def)
next
  case False
  with up_to_slash_cases [of d] obtain q r where u: "up_to_slash d = q @ [slash]" and d: "d = q @ slash # r"
    by blast
  then have pos: "path_measure d = Suc (length d)"
    by (cases q) (auto simp: path_measure_def)
  show ?thesis
  proof (cases "q = []")
    case True
    with u have "dir d = ''/''" by (simp add: dir_def clean_def clean_elems_def clean_step_def)
    with assms d True pos show ?thesis by (cases r) (auto simp: path_measure_def)
  next
    case False
    from clean_snoc_slash_shorter [OF this] u d pos show ?thesis by (simp add: dir_def)
  qed
qed

end
