(* ===== verification/Host.thy ===== *)
theory Host
  imports Go_Path
begin

text \<open>
  What the program sees of the machine it runs on, at one instant. None of it is code of the
  repository: the process table comes through gopsutil, files through \<^verbatim>\<open>os\<close>, forked programs
  through \<^verbatim>\<open>os/exec\<close>. A \<open>host\<close> is therefore a parameter of every operation that looks outside,
  and the theorems hold for each value of it. Operations that look more than once take one host per
  look where the order of events matters.
\<close>

datatype os_error = ErrNotExist | ErrOther string

text \<open>\<^verbatim>\<open>os.FileInfo\<close>: Go's mode bits, and the owner when the platform reports one.\<close>

record file_info =
  fi_mode :: "32 word"
  fi_uid :: "32 word option"

text \<open>A gopsutil process handle with the answers its methods give at this instant.\<close>

record proc_handle =
  p_pid :: int
  p_name :: "os_error + string"
  p_cmdline :: "os_error + string"
  p_exe :: "os_error + string"
  p_ppid :: "os_error + int"
  p_memory :: "os_error + uint64 option"
  p_create_time :: "os_error + int"

text \<open>What a forked program does: the pieces of output it writes, in order, and its exit error.\<close>

record exec_result =
  x_writes :: "string list"
  x_exit :: "string option"

record host =
  h_uid :: int
  h_lstat :: "string \<Rightarrow> os_error + file_info"
  h_processes :: "os_error + proc_handle list"
  h_new_process :: "int \<Rightarrow> os_error + proc_handle"
  h_read_file :: "string \<Rightarrow> os_error + string"
  h_signal :: "int \<Rightarrow> nat \<Rightarrow> os_error option"
  h_exec :: "string \<Rightarrow> string list \<Rightarrow> exec_result"
  h_ctx_err :: "string option"
  h_now :: int

text \<open>A context, as far as its deadline goes: \<open>None\<close> has none. \<^verbatim>\<open>context.WithTimeout\<close> never moves
  the deadline of its parent back.\<close>

type_synonym deadline = "int option"

definition with_timeout :: "int \<Rightarrow> int \<Rightarrow> deadline \<Rightarrow> deadline" where
  "with_timeout now d ctx = Some (case ctx of None \<Rightarrow> now + d | Some t \<Rightarrow> min t (now + d))"

lemma with_timeout_bounds:
  obtains t where "with_timeout now d ctx = Some t" "t \<le> now + d" "ctx = None \<or> (\<exists>u. ctx = Some u \<and> t \<le> u)"
  by (cases ctx) (simp_all add: with_timeout_def)

lemma with_timeout_nested [simp]: "with_timeout now d (with_timeout now d ctx) = with_timeout now d ctx"
  by (cases ctx) (simp_all add: with_timeout_def)

text \<open>One program handed to \<^verbatim>\<open>os/exec\<close>: the binary and its arguments. When the context has already ended,
  \<^verbatim>\<open>os/exec\<close> starts nothing and the run ends with an exit error; the call is listed all the same, so a list of
  calls holds at least what was started.\<close>

type_synonym exec_call = "string \<times> string list"

text \<open>Go's \<^verbatim>\<open>os.FileMode\<close> bits.\<close>

abbreviation mode_symlink :: "32 word" where "mode_symlink \<equiv> 0x08000000"
abbreviation mode_sticky :: "32 word" where "mode_sticky \<equiv> 0x00100000"
abbreviation mode_type :: "32 word" where "mode_type \<equiv> 0x8F280000"
abbreviation mode_perm :: "32 word" where "mode_perm \<equiv> 0x000001FF"

end
