(* ===== verification/Trust.thy ===== *)
theory Trust
  imports Host
begin

text \<open>
  \<^verbatim>\<open>trust.go\<close> and \<^verbatim>\<open>run.go\<close>: which binaries and configuration files may be used, the walk over the
  directories above them, and the bounded execution of a php-fpm binary behind that check. The check
  is specified by \<open>trusted_spec\<close>, a predicate over the file and the directories of its cleaned path,
  and the code is shown to decide it.
\<close>

section \<open>trust.go\<close>

text \<open>The permission masks \<^verbatim>\<open>0o022\<close> and \<^verbatim>\<open>0o002\<close>.\<close>

abbreviation perm_022 :: "32 word" where "perm_022 \<equiv> 0x12"
abbreviation perm_002 :: "32 word" where "perm_002 \<equiv> 0x02"

datatype trust_error =
    NotAbsolute string
  | PathMissing string
  | CannotStat string
  | UnknownOwner string
  | IsSymlink string
  | NotRegular string
  | ForeignOwner string "32 word"
  | WritableByOthers string "32 word"
  | DirForeignOwner string string "32 word"
  | DirWritable string string "32 word"

text \<open>The checks on one directory above the path, in the order of the loop body.\<close>

definition ancestor_check :: "host \<Rightarrow> string \<Rightarrow> string \<Rightarrow> trust_error option" where
  "ancestor_check h path d =
     (case h_lstat h d of
        Inl e \<Rightarrow> Some (if e = ErrNotExist then PathMissing d else CannotStat d)
      | Inr info \<Rightarrow>
          (case fi_uid info of
             None \<Rightarrow> Some (UnknownOwner d)
           | Some uid \<Rightarrow>
               (let sticky = (fi_mode info AND mode_sticky \<noteq> 0);
                    perm = fi_mode info AND mode_perm
                in if h_uid h = 0 then
                     (if uid \<noteq> 0 then Some (DirForeignOwner path d uid)
                      else if perm AND perm_022 \<noteq> 0 \<and> \<not> sticky then Some (DirWritable path d perm)
                      else None)
                   else if perm AND perm_002 \<noteq> 0 \<and> \<not> sticky then Some (DirWritable path d perm)
                   else None)))"

function ancestors_loop :: "host \<Rightarrow> string \<Rightarrow> string \<Rightarrow> trust_error option" where
  "ancestors_loop h path d =
     (case ancestor_check h path d of
        Some e \<Rightarrow> Some e
      | None \<Rightarrow> if dir d = d then None else ancestors_loop h path (dir d))"
  by pat_completeness auto
termination
  by (relation "measure (\<lambda>(h, path, d). path_measure d)") (auto simp: dir_measure)

declare ancestors_loop.simps [simp del]

definition trustedAncestors :: "host \<Rightarrow> string \<Rightarrow> trust_error option" where
  "trustedAncestors h path = ancestors_loop h path (dir (clean path))"

text \<open>The checks on the file itself, after the directories.\<close>

definition file_check :: "host \<Rightarrow> string \<Rightarrow> trust_error option" where
  "file_check h path =
     (case h_lstat h path of
        Inl e \<Rightarrow> Some (if e = ErrNotExist then PathMissing path else CannotStat path)
      | Inr info \<Rightarrow>
          if fi_mode info AND mode_symlink \<noteq> 0 then Some (IsSymlink path)
          else if fi_mode info AND mode_type \<noteq> 0 then Some (NotRegular path)
          else (case fi_uid info of
             None \<Rightarrow> Some (UnknownOwner path)
           | Some uid \<Rightarrow>
               if uid \<noteq> 0 \<and> (ucast uid :: uint64) \<noteq> go_uint64 (h_uid h)
               then Some (ForeignOwner path uid)
               else if (fi_mode info AND mode_perm) AND perm_022 \<noteq> 0
               then Some (WritableByOthers path (fi_mode info AND mode_perm))
               else None))"

definition trustedPath :: "host \<Rightarrow> string \<Rightarrow> trust_error option" where
  "trustedPath h path =
     (if \<not> is_abs path then Some (NotAbsolute path)
      else case trustedAncestors h path of
        Some e \<Rightarrow> Some e
      | None \<Rightarrow> file_check h path)"

section \<open>What the check promises\<close>

definition dir_safe :: "host \<Rightarrow> string \<Rightarrow> bool" where
  "dir_safe h d \<longleftrightarrow>
     (case h_lstat h d of
        Inl _ \<Rightarrow> False
      | Inr info \<Rightarrow>
          (case fi_uid info of
             None \<Rightarrow> False
           | Some uid \<Rightarrow>
               if h_uid h = 0
               then uid = 0 \<and> (fi_mode info AND perm_022 = 0 \<or> fi_mode info AND mode_sticky \<noteq> 0)
               else fi_mode info AND perm_002 = 0 \<or> fi_mode info AND mode_sticky \<noteq> 0))"

definition file_safe :: "host \<Rightarrow> string \<Rightarrow> bool" where
  "file_safe h p \<longleftrightarrow>
     (case h_lstat h p of
        Inl _ \<Rightarrow> False
      | Inr info \<Rightarrow>
          fi_mode info AND mode_type = 0 \<and> fi_mode info AND perm_022 = 0 \<and>
          (case fi_uid info of
             None \<Rightarrow> False
           | Some uid \<Rightarrow> uid = 0 \<or> uint uid = h_uid h mod 2 ^ 64))"

text \<open>The directories above an absolute path, as \<^verbatim>\<open>filepath.Clean\<close> reads it: every proper prefix
  of its names, the root included (also for the root itself).\<close>

definition dirs_above :: "string \<Rightarrow> string list" where
  "dirs_above p =
     (let ws = clean_elems p in map (\<lambda>k. abs_path (take k ws)) [0..<max 1 (length ws)])"

definition trusted_spec :: "host \<Rightarrow> string \<Rightarrow> bool" where
  "trusted_spec h p \<longleftrightarrow> is_abs p \<and> list_all (dir_safe h) (dirs_above p) \<and> file_safe h p"

lemma perm_masks [simp]:
  "(m AND mode_perm) AND perm_022 = m AND perm_022"
  "(m AND mode_perm) AND perm_002 = m AND perm_002"
  by (simp_all add: and.assoc)

lemma ancestor_check_None: "ancestor_check h path d = None \<longleftrightarrow> dir_safe h d"
  by (auto simp: ancestor_check_def dir_safe_def Let_def split: sum.splits option.splits)

lemma symlink_not_regular: "m AND mode_type = 0 \<Longrightarrow> m AND mode_symlink = 0"
proof -
  assume "m AND mode_type = 0"
  moreover have "m AND mode_symlink = (m AND mode_type) AND mode_symlink"
    by (simp add: and.assoc)
  ultimately show ?thesis by simp
qed

lemma owner_is_us: "(ucast (uid :: 32 word) :: uint64) = go_uint64 u \<longleftrightarrow> uint uid = u mod 2 ^ 64"
proof -
  have "(ucast uid :: uint64) = go_uint64 u \<longleftrightarrow> uint (ucast uid :: uint64) = uint (go_uint64 u)"
    by (rule word_uint_eq_iff)
  then show ?thesis by (simp add: go_uint64_def uint_word_of_int uint_up_ucast is_up)
qed

lemma file_check_None: "file_check h path = None \<longleftrightarrow> file_safe h path"
  by (auto simp: file_check_def file_safe_def owner_is_us symlink_not_regular
      split: sum.splits option.splits)

lemma dir_abs_path_neq:
  assumes "\<forall>v \<in> set ws. path_name v" and "path_name w"
  shows "dir (abs_path (ws @ [w])) \<noteq> abs_path (ws @ [w])"
proof
  assume "dir (abs_path (ws @ [w])) = abs_path (ws @ [w])"
  with dir_abs_snoc [OF assms] have "abs_path ws = abs_path (ws @ [w])" by simp
  then have "ws = ws @ [w]" using assms by (intro abs_path_inj) auto
  then show False by simp
qed

lemma ancestors_loop_None:
  assumes "\<forall>w \<in> set ws. path_name w"
  shows "ancestors_loop h path (abs_path ws) = None \<longleftrightarrow>
           (\<forall>k \<le> length ws. dir_safe h (abs_path (take k ws)))"
  using assms
proof (induction ws rule: rev_induct)
  case Nil
  then show ?case
    using ancestor_check_None [of h path "abs_path []"]
    by (auto simp: ancestors_loop.simps [of h path "abs_path []"] split: option.splits)
next
  case (snoc w ws)
  then have names: "\<forall>v \<in> set ws. path_name v" and w: "path_name w" by simp_all
  have "ancestors_loop h path (abs_path (ws @ [w])) = None \<longleftrightarrow>
      dir_safe h (abs_path (ws @ [w])) \<and> ancestors_loop h path (abs_path ws) = None"
    using dir_abs_path_neq [OF names w] dir_abs_snoc [OF names w]
      ancestor_check_None [of h path "abs_path (ws @ [w])"]
    by (auto simp: ancestors_loop.simps [of h path "abs_path (ws @ [w])"] split: option.splits)
  with snoc.IH [OF names] show ?case
    by (auto simp: le_Suc_eq)
qed

lemma dir_clean:
  assumes "is_abs p"
  shows "dir (clean p) = abs_path (butlast (clean_elems p))"
proof (cases "clean_elems p" rule: rev_cases)
  case Nil
  with clean_abs(1) [OF assms] show ?thesis by simp
next
  case (snoc ws w)
  with clean_abs [OF assms] dir_abs_snoc [of ws w] show ?thesis by simp
qed

lemma trustedAncestors_None:
  assumes "is_abs p"
  shows "trustedAncestors h p = None \<longleftrightarrow> list_all (dir_safe h) (dirs_above p)"
proof -
  have "\<forall>w \<in> set (butlast (clean_elems p)). path_name w"
    using clean_abs(2) [OF assms] by (auto dest: in_set_butlastD)
  moreover have "take k (butlast ws) = take k ws" if "k \<le> length ws - 1" for k and ws :: "string list"
    using that by (simp add: butlast_conv_take min_def)
  moreover have "{0..<max 1 n} = {k. k \<le> n - 1}" for n :: nat by auto
  ultimately show ?thesis
    by (simp add: trustedAncestors_def dir_clean [OF assms] ancestors_loop_None dirs_above_def Let_def
        list_all_iff)
qed

lemma trustedPath_None: "trustedPath h p = None \<longleftrightarrow> trusted_spec h p"
  using trustedAncestors_None [of p h]
  by (auto simp: trustedPath_def trusted_spec_def file_check_None split: option.splits)

text \<open>
  C1. The trust check accepts a path exactly when the path is absolute, every directory above its
  cleaned form is safe (as root: owned by root and not writable by others unless sticky; otherwise:
  not world-writable unless sticky), and the path itself is a regular file owned by root or by this
  process that neither group nor others can write. The walk to the root always ends.
\<close>

theorem trustedPath_iff: "trustedPath h p = None \<longleftrightarrow> trusted_spec h p"
  by (rule trustedPath_None)

definition repointable_host :: host where
  "repointable_host =
     \<lparr>h_uid = 0,
      h_lstat = (\<lambda>p.
        if p = ''/'' then Inr \<lparr>fi_mode = 0x800001ED, fi_uid = Some 0\<rparr>
        else if p = ''/tmp'' then Inr \<lparr>fi_mode = 0x801001FF, fi_uid = Some 0\<rparr>
        else if p = ''/tmp/l'' then Inr \<lparr>fi_mode = 0x080001FF, fi_uid = Some 1000\<rparr>
        else if p = ''/tmp/l/../fpm.conf'' then Inr \<lparr>fi_mode = 0x000001A4, fi_uid = Some 0\<rparr>
        else Inl ErrNotExist),
      h_processes = Inr [], h_new_process = (\<lambda>_. Inl ErrNotExist),
      h_read_file = (\<lambda>_. Inl ErrNotExist), h_signal = (\<lambda>_ _. None),
      h_exec = (\<lambda>_ _. \<lparr>x_writes = [], x_exit = None\<rparr>), h_ctx_err = None, h_now = 0\<rparr>"

text \<open>
  C35. The loop looks only at the cleaned path while the file is looked up under the path as given:
  running as root, a path can be accepted although it passes through a symbolic link that another
  user owns, when a \<open>..\<close> after the link makes \<^verbatim>\<open>filepath.Clean\<close> drop it.
\<close>

theorem trustedPath_skips_dotdot:
  "\<exists>h p d info. trustedPath h p = None \<and> h_uid h = 0 \<and> has_prefix p (d @ ''/'') \<and>
     h_lstat h d = Inr info \<and> fi_mode info AND mode_symlink \<noteq> 0 \<and> fi_uid info \<noteq> Some 0"
proof -
  have "trustedPath repointable_host ''/tmp/l/../fpm.conf'' = None"
    unfolding trustedPath_None by code_simp
  moreover have "h_lstat repointable_host ''/tmp/l'' = Inr \<lparr>fi_mode = 0x080001FF, fi_uid = Some 1000\<rparr>"
    and "h_uid repointable_host = 0"
    by (simp_all add: repointable_host_def)
  moreover have "has_prefix ''/tmp/l/../fpm.conf'' (''/tmp/l'' @ ''/'')"
    by (simp add: has_prefix_def)
  ultimately show ?thesis by fastforce
qed

lemma ancestor_check_missing:
  "ancestor_check h path d = Some (PathMissing q) \<Longrightarrow> q = d \<and> h_lstat h d = Inl ErrNotExist"
  by (auto simp: ancestor_check_def Let_def split: sum.splits option.splits if_splits)

lemma ancestors_loop_missing:
  assumes "ancestors_loop h path d = Some (PathMissing q)"
  shows "h_lstat h q = Inl ErrNotExist"
  using assms
proof (induction h path d rule: ancestors_loop.induct)
  case (1 h path d)
  then show ?case
    by (auto simp: ancestors_loop.simps [of h path d] dest: ancestor_check_missing
        split: option.splits if_splits)
qed

text \<open>
  A path is reported as missing only when the system says that a file does not exist, and a
  file that is gone from a directory chain that is itself safe is always reported that way: a
  leftover master is told apart from one that fails the trust checks.
\<close>

theorem trustedPath_missing:
  "(trustedPath h p = Some (PathMissing q) \<longrightarrow> h_lstat h q = Inl ErrNotExist) \<and>
   (is_abs p \<and> list_all (dir_safe h) (dirs_above p) \<and> h_lstat h p = Inl ErrNotExist \<longrightarrow>
      trustedPath h p = Some (PathMissing p))"
proof -
  have "h_lstat h q = Inl ErrNotExist" if "file_check h p = Some (PathMissing q)"
    using that by (auto simp: file_check_def split: sum.splits option.splits if_splits)
  then show ?thesis
    using trustedAncestors_None [of p h]
    by (auto simp: trustedPath_def trustedAncestors_def file_check_def ancestors_loop_missing
        split: if_splits option.splits)
qed

theorem trustedPath_missing_witness:
  "trustedPath repointable_host ''/tmp/gone.conf'' = Some (PathMissing ''/tmp/gone.conf'') \<and>
   h_lstat repointable_host ''/tmp/gone.conf'' = Inl ErrNotExist"
proof -
  have "is_abs ''/tmp/gone.conf'' \<and> list_all (dir_safe repointable_host) (dirs_above ''/tmp/gone.conf'') \<and>
      h_lstat repointable_host ''/tmp/gone.conf'' = Inl ErrNotExist"
    by code_simp
  with trustedPath_missing [of repointable_host "''/tmp/gone.conf''" "''/tmp/gone.conf''"]
  show ?thesis by blast
qed

end
