(* ===== verification/Capture.thy ===== *)
theory Capture
  imports Trust
begin

text \<open>
  The bounded capture of a forked program's output: \<^verbatim>\<open>limitedWriter\<close> (config.go), the copy loop that
  \<^verbatim>\<open>os/exec\<close> drives it with, and \<^verbatim>\<open>runBounded\<close> (run.go), which runs a binary only after the trust
  check. The lemmas say what is captured, when the capture knows that it is incomplete, and which
  binaries are ever executed.
\<close>

section \<open>limitedWriter\<close>

record limited_writer =
  lw_w :: string
  lw_remaining :: int
  lw_truncated :: bool

text \<open>\<^verbatim>\<open>Write\<close> returns the length of what it kept of the slice, and the new writer. A
  \<^verbatim>\<open>bytes.Buffer\<close> takes everything it is given and never fails.\<close>

definition lw_write :: "limited_writer \<Rightarrow> string \<Rightarrow> int \<times> limited_writer" where
  "lw_write l p =
     (if lw_remaining l \<le> 0 then (int (length p), l\<lparr>lw_truncated := True\<rparr>)
      else let over = int (length p) > lw_remaining l;
               p' = (if over then take (nat (lw_remaining l)) p else p)
           in (int (length p'),
               l\<lparr>lw_w := lw_w l @ p', lw_remaining := lw_remaining l - int (length p'),
                 lw_truncated := lw_truncated l \<or> over\<rparr>))"

definition lw_new :: "int \<Rightarrow> limited_writer" where
  "lw_new cap = \<lparr>lw_w = [], lw_remaining = cap, lw_truncated = False\<rparr>"

text \<open>The copy loop of \<^verbatim>\<open>io.Copy\<close>: it stops with \<^verbatim>\<open>io.ErrShortWrite\<close> as soon as a \<^verbatim>\<open>Write\<close> reports
  fewer bytes than it was handed.\<close>

fun io_copy :: "limited_writer \<Rightarrow> string list \<Rightarrow> bool \<times> limited_writer" where
  "io_copy l [] = (False, l)"
| "io_copy l (p # ps) =
     (case lw_write l p of (n, l') \<Rightarrow>
        if n \<noteq> int (length p) then (True, l') else io_copy l' ps)"

datatype run_error = ExitError string | ShortWrite

text \<open>\<^verbatim>\<open>cmd.Run\<close> with output and errors captured by one writer: the program's own exit error comes
  before an error of the copy.\<close>

definition cmd_run :: "int \<Rightarrow> exec_result \<Rightarrow> limited_writer \<times> run_error option" where
  "cmd_run cap x =
     (case io_copy (lw_new cap) (x_writes x) of (short, l) \<Rightarrow>
        (l, case x_exit x of Some e \<Rightarrow> Some (ExitError e)
            | None \<Rightarrow> if short then Some ShortWrite else None))"

section \<open>run.go\<close>

definition maxCapturedOutput :: int where
  "maxCapturedOutput = 4 * 2 ^ 20"

datatype bounded_error = Refusing trust_error | RunFailed run_error

text \<open>The captured bytes, the error, and the programs executed on the way.\<close>

definition runBounded ::
  "host \<Rightarrow> string \<Rightarrow> string list \<Rightarrow> (string \<times> bounded_error option) \<times> exec_call list" where
  "runBounded h binary args =
     (case trustedPath h binary of
        Some e \<Rightarrow> (([], Some (Refusing e)), [])
      | None \<Rightarrow>
          (case cmd_run maxCapturedOutput (h_exec h binary args) of (l, err) \<Rightarrow>
             ((lw_w l, map_option RunFailed err), [(binary, args)])))"

section \<open>What is captured\<close>

lemma io_copy_full:
  "lw_remaining l \<le> 0 \<Longrightarrow>
   io_copy l ws = (False, if ws = [] then l else l\<lparr>lw_truncated := True\<rparr>)"
  by (induction ws arbitrary: l) (auto simp: lw_write_def)

lemma io_copy_over:
  "0 < lw_remaining l \<Longrightarrow> lw_remaining l < int (length p) \<Longrightarrow>
   io_copy l (p # ps) =
     (True, l\<lparr>lw_w := lw_w l @ take (nat (lw_remaining l)) p, lw_remaining := 0, lw_truncated := True\<rparr>)"
  by (simp add: lw_write_def)

lemma io_copy_fits:
  "0 < lw_remaining l \<Longrightarrow> int (length p) \<le> lw_remaining l \<Longrightarrow>
   io_copy l (p # ps) =
     io_copy (l\<lparr>lw_w := lw_w l @ p, lw_remaining := lw_remaining l - int (length p)\<rparr>) ps"
  by (simp add: lw_write_def)

lemma io_copy_capture:
  assumes "0 \<le> lw_remaining l" and "\<forall>w \<in> set ws. w \<noteq> []"
  shows "lw_w (snd (io_copy l ws)) = lw_w l @ take (nat (lw_remaining l)) (concat ws) \<and>
         (lw_truncated (snd (io_copy l ws)) \<longleftrightarrow>
            lw_truncated l \<or> lw_remaining l < int (length (concat ws)))"
  using assms
proof (induction ws arbitrary: l)
  case (Cons p ps)
  consider (full) "lw_remaining l \<le> 0" | (over) "0 < lw_remaining l" "lw_remaining l < int (length p)"
    | (fits) "0 < lw_remaining l" "int (length p) \<le> lw_remaining l"
    by linarith
  then show ?case
  proof cases
    case full
    with Cons.prems have "0 < int (length p) + int (length (concat ps))" by (cases p) auto
    with full Cons.prems show ?thesis by (auto simp del: io_copy.simps simp: io_copy_full)
  next
    case over
    then show ?thesis by (auto simp del: io_copy.simps simp: io_copy_over)
  next
    case fits
    with Cons.prems Cons.IH [of "l\<lparr>lw_w := lw_w l @ p, lw_remaining := lw_remaining l - int (length p)\<rparr>"]
    show ?thesis by (auto simp del: io_copy.simps simp: io_copy_fits nat_diff_distrib)
  qed
qed simp

lemma capture_exact:
  assumes "0 \<le> cap" and "\<forall>w \<in> set (x_writes x). w \<noteq> []"
  shows "lw_w (fst (cmd_run cap x)) = take (nat cap) (concat (x_writes x))"
    and "lw_truncated (fst (cmd_run cap x)) \<longleftrightarrow> cap < int (length (concat (x_writes x)))"
  using io_copy_capture [of "lw_new cap" "x_writes x"] assms
  by (simp_all add: cmd_run_def lw_new_def case_prod_unfold)

text \<open>The captured bytes alone, and the exact condition for a short write.\<close>

lemma io_copy_bytes:
  "0 \<le> lw_remaining l \<Longrightarrow> lw_w (snd (io_copy l ws)) = lw_w l @ take (nat (lw_remaining l)) (concat ws)"
proof (induction ws arbitrary: l)
  case (Cons p ps)
  consider (full) "lw_remaining l = 0" | (over) "0 < lw_remaining l" "lw_remaining l < int (length p)"
    | (fits) "0 < lw_remaining l" "int (length p) \<le> lw_remaining l"
    using Cons.prems by linarith
  then show ?case
  proof cases
    case fits
    with Cons.IH [of "l\<lparr>lw_w := lw_w l @ p, lw_remaining := lw_remaining l - int (length p)\<rparr>"]
    show ?thesis by (auto simp del: io_copy.simps simp: io_copy_fits nat_diff_distrib)
  qed (auto simp del: io_copy.simps simp: io_copy_full io_copy_over)
qed simp

definition crosses :: "int \<Rightarrow> string list \<Rightarrow> bool" where
  "crosses cap ws \<longleftrightarrow>
     (\<exists>before p after. ws = before @ p # after \<and> int (length (concat before)) < cap \<and>
        cap < int (length (concat before)) + int (length p))"

lemma crosses_simps:
  "\<not> crosses cap []"
  "crosses cap (p # ps) \<longleftrightarrow> 0 < cap \<and> cap < int (length p) \<or> crosses (cap - int (length p)) ps"
proof -
  show "\<not> crosses cap []" by (simp add: crosses_def)
  show "crosses cap (p # ps) \<longleftrightarrow> 0 < cap \<and> cap < int (length p) \<or> crosses (cap - int (length p)) ps"
  proof
    assume "crosses cap (p # ps)"
    then obtain before q after where split: "p # ps = before @ q # after" "int (length (concat before)) < cap"
        "cap < int (length (concat before)) + int (length q)" unfolding crosses_def by blast
    show "0 < cap \<and> cap < int (length p) \<or> crosses (cap - int (length p)) ps"
    proof (cases before)
      case (Cons b before')
      with split show ?thesis unfolding crosses_def
        by (intro disjI2 exI [of _ before'] exI [of _ q] exI [of _ after]) auto
    qed (use split in auto)
  next
    assume "0 < cap \<and> cap < int (length p) \<or> crosses (cap - int (length p)) ps"
    then show "crosses cap (p # ps)"
    proof
      assume "0 < cap \<and> cap < int (length p)"
      then show ?thesis unfolding crosses_def by (intro exI [of _ "[]"] exI [of _ p] exI [of _ ps]) simp
    next
      assume "crosses (cap - int (length p)) ps"
      then obtain before q after where "ps = before @ q # after" "int (length (concat before)) < cap - int (length p)"
        "cap - int (length p) < int (length (concat before)) + int (length q)" unfolding crosses_def by blast
      then show ?thesis unfolding crosses_def
        by (intro exI [of _ "p # before"] exI [of _ q] exI [of _ after]) simp
    qed
  qed
qed

lemma crosses_nonpos: "cap \<le> 0 \<Longrightarrow> \<not> crosses cap ws"
  by (auto simp: crosses_def)

lemma io_copy_short: "fst (io_copy l ws) \<longleftrightarrow> crosses (lw_remaining l) ws"
proof (induction ws arbitrary: l)
  case (Cons p ps)
  consider (full) "lw_remaining l \<le> 0" | (over) "0 < lw_remaining l" "lw_remaining l < int (length p)"
    | (fits) "0 < lw_remaining l" "int (length p) \<le> lw_remaining l"
    by linarith
  then show ?case
  proof cases
    case fits
    with Cons.IH [of "l\<lparr>lw_w := lw_w l @ p, lw_remaining := lw_remaining l - int (length p)\<rparr>"]
    show ?thesis by (simp del: io_copy.simps add: io_copy_fits crosses_simps)
  qed (simp_all del: io_copy.simps add: io_copy_full io_copy_over crosses_nonpos crosses_simps)
qed (simp add: crosses_simps)

lemma cmd_run_bytes: "0 \<le> cap \<Longrightarrow> lw_w (fst (cmd_run cap x)) = take (nat cap) (concat (x_writes x))"
  using io_copy_bytes [of "lw_new cap" "x_writes x"] by (simp add: cmd_run_def lw_new_def case_prod_unfold)

lemma cmd_run_short: "snd (cmd_run cap x) = None \<longleftrightarrow> x_exit x = None \<and> \<not> crosses cap (x_writes x)"
  using io_copy_short [of "lw_new cap" "x_writes x"]
  by (auto simp: cmd_run_def lw_new_def case_prod_unfold split: option.splits)

text \<open>
  Whatever a program writes, in whatever pieces, the capture holds exactly the first \<open>cap\<close>
  bytes of it, and it is marked as truncated exactly when there were more: an incomplete capture
  is never mistaken for a complete one.
\<close>

theorem cmd_run_capture:
  assumes "0 \<le> cap" and "\<forall>w \<in> set (x_writes x). w \<noteq> []"
  shows "lw_w (fst (cmd_run cap x)) = take (nat cap) (concat (x_writes x)) \<and>
         (lw_truncated (fst (cmd_run cap x)) \<longleftrightarrow> cap < int (length (concat (x_writes x))))"
  using capture_exact [OF assms] by simp

theorem cmd_run_capture_witness:
  "lw_w (fst (cmd_run 5 \<lparr>x_writes = [''abc'', ''def''], x_exit = None\<rparr>)) = ''abcde'' \<and>
   lw_truncated (fst (cmd_run 5 \<lparr>x_writes = [''abc'', ''def''], x_exit = None\<rparr>))"
  using cmd_run_capture [of 5 "\<lparr>x_writes = [''abc'', ''def''], x_exit = None\<rparr>"] by simp

text \<open>
  C39. A write that crosses the limit reports fewer bytes than it was given and no error, so the
  copy that feeds it ends in a short-write error: the overflow is not discarded quietly, and a
  program that overruns inside one write makes the whole run fail.
\<close>

theorem lw_write_short:
  assumes "0 < lw_remaining l" and "lw_remaining l < int (length p)"
  shows "fst (lw_write l p) < int (length p) \<and>
         (x_exit x = None \<and> x_writes x = p # ps \<longrightarrow> snd (cmd_run (lw_remaining l) x) = Some ShortWrite)"
  using assms by (auto simp: lw_write_def cmd_run_def lw_new_def)

theorem lw_write_short_witness:
  "fst (lw_write (lw_new 2) ''abc'') < 3 \<and>
   snd (cmd_run 2 \<lparr>x_writes = [''abc''], x_exit = None\<rparr>) = Some ShortWrite"
  using lw_write_short [of "lw_new 2" "''abc''" "\<lparr>x_writes = [''abc''], x_exit = None\<rparr>" "[]"]
  by (simp add: lw_new_def)

text \<open>
  Nothing reaches execution through \<^verbatim>\<open>runBounded\<close> unless the trust specification holds of it,
  and a trusted binary is executed exactly once with the arguments given.
\<close>

theorem runBounded_executes_only_trusted:
  "snd (runBounded h binary args) = (if trusted_spec h binary then [(binary, args)] else []) \<and>
   (trusted_spec h binary \<or> (\<exists>e. fst (runBounded h binary args) = ([], Some (Refusing e))))"
  by (auto simp: runBounded_def trustedPath_None [symmetric] split: option.splits prod.splits)

end
