(* ===== verification/Config.thy ===== *)
theory Config
  imports Capture
begin

text \<open>
  The parser of \<^verbatim>\<open>config.go\<close>: \<^verbatim>\<open>parseFPMConfigOutput\<close> turns the report that \<^verbatim>\<open>php-fpm -tt\<close> writes
  into global settings and one map of settings per pool. The lemmas give its invariants, the one way
  it can fail, and a round trip: a report written in php-fpm's format parses back to the
  configuration it was written from.
\<close>

section \<open>The parser\<close>

record effective_config =
  ec_Global :: strmap
  ec_Pools :: "strmap gomap"

abbreviation tab :: char where "tab \<equiv> CHR 0x09"
abbreviation newline :: char where "newline \<equiv> CHR 0x0A"
abbreviation dquote :: char where "dquote \<equiv> CHR 0x22"
abbreviation backslash :: char where "backslash \<equiv> CHR 0x5C"

text \<open>What the loop makes of one line before it looks at it.\<close>

definition strip_notice :: "string \<Rightarrow> string" where
  "strip_notice l =
     (case index_of l ''] NOTICE:'' of
        None \<Rightarrow> l
      | Some i \<Rightarrow> trim_space (drop (i + length ''] NOTICE:'') l))"

definition clean_line :: "string \<Rightarrow> string" where
  "clean_line text =
     (let l1 = strip_notice (trim_space text);
          l2 = remove_all [backslash, CHR ''t''] l1;
          l3 = remove_all [tab] l2
      in trim_space (trim_byte dquote l3))"

text \<open>The two map writes: the pool's own map is created when it is missing.\<close>

definition pool_map :: "strmap gomap \<Rightarrow> string \<Rightarrow> strmap" where
  "pool_map pools name = (case map_of pools name of None \<Rightarrow> [] | Some m \<Rightarrow> m)"

definition ensure_pool :: "string \<Rightarrow> effective_config \<Rightarrow> effective_config" where
  "ensure_pool name cfg =
     (if map_of (ec_Pools cfg) name = None
      then cfg\<lparr>ec_Pools := AList.update name [] (ec_Pools cfg)\<rparr> else cfg)"

definition set_value :: "string \<Rightarrow> string \<Rightarrow> string \<Rightarrow> effective_config \<Rightarrow> effective_config" where
  "set_value sect key val cfg =
     (if sect \<noteq> ''global'' then
        cfg\<lparr>ec_Pools := AList.update sect
               (AList.update key val (pool_map (ec_Pools (ensure_pool sect cfg)) sect))
               (ec_Pools (ensure_pool sect cfg))\<rparr>
      else cfg\<lparr>ec_Global := AList.update key val (ec_Global cfg)\<rparr>)"

text \<open>One round of the loop, from the cleaned line on: the current section and the configuration.\<close>

definition parse_cleaned :: "string \<times> effective_config \<Rightarrow> string \<Rightarrow> string \<times> effective_config" where
  "parse_cleaned st line =
     (case st of (sect, cfg) \<Rightarrow>
        if line = [] \<or> has_prefix line '';'' then (sect, cfg)
        else if has_prefix line ''['' \<and> has_suffix line '']'' then
          (let name = trim_suffix (trim_prefix line ''['') '']''
           in if name = ''global'' then (''global'', cfg) else (name, ensure_pool name cfg))
        else if contains line ''='' then
          (let key = trim_byte dquote (trim_space (fst (cut_byte CHR ''='' line)));
               val = trim_byte dquote (trim_space (snd (cut_byte CHR ''='' line)))
           in (sect, set_value sect key (if val = ''undefined'' then [] else val) cfg))
        else (sect, cfg))"

definition empty_config :: effective_config where
  "empty_config = \<lparr>ec_Global = [], ec_Pools = []\<rparr>"

definition parse_lines :: "string list \<Rightarrow> effective_config" where
  "parse_lines ls = snd (foldl parse_cleaned (''global'', empty_config) (map clean_line ls))"

text \<open>\<open>None\<close> is the error return: the scanner gave up on a line.\<close>

definition parseFPMConfigOutput :: "string \<Rightarrow> effective_config option" where
  "parseFPMConfigOutput output = map_option parse_lines (scan_lines output)"

section \<open>Invariants of a parsed configuration\<close>

definition settings_ok :: "strmap \<Rightarrow> bool" where
  "settings_ok m \<longleftrightarrow> gomap_ok m \<and> gomap_all (\<lambda>v. v \<noteq> ''undefined'') m"

definition config_ok :: "effective_config \<Rightarrow> bool" where
  "config_ok cfg \<longleftrightarrow>
     settings_ok (ec_Global cfg) \<and> gomap_ok (ec_Pools cfg) \<and> ''global'' \<notin> fst ` set (ec_Pools cfg) \<and>
     gomap_all settings_ok (ec_Pools cfg)"

lemma settings_ok_update: "settings_ok m \<Longrightarrow> v \<noteq> ''undefined'' \<Longrightarrow> settings_ok (AList.update k v m)"
  by (simp add: settings_ok_def)

lemma settings_ok_Nil [simp]: "settings_ok []"
  by (simp add: settings_ok_def)

lemma config_ok_empty: "config_ok empty_config"
  by (simp add: config_ok_def empty_config_def)

lemma config_ok_pools:
  "config_ok cfg \<Longrightarrow> name \<noteq> ''global'' \<Longrightarrow> settings_ok m \<Longrightarrow>
   config_ok (cfg\<lparr>ec_Pools := AList.update name m (ec_Pools cfg)\<rparr>)"
  by (simp add: config_ok_def)

lemma config_ok_ensure: "config_ok cfg \<Longrightarrow> name \<noteq> ''global'' \<Longrightarrow> config_ok (ensure_pool name cfg)"
  by (simp add: ensure_pool_def config_ok_pools)

lemma settings_ok_pool_map: "config_ok cfg \<Longrightarrow> settings_ok (pool_map (ec_Pools cfg) name)"
  by (auto simp: pool_map_def config_ok_def gomap_all_def list_all_iff split: option.splits)

lemma set_value_pool:
  "sect \<noteq> ''global'' \<Longrightarrow> set_value sect key val cfg =
   (let cfg' = ensure_pool sect cfg
    in cfg'\<lparr>ec_Pools := AList.update sect (AList.update key val (pool_map (ec_Pools cfg') sect)) (ec_Pools cfg')\<rparr>)"
  by (simp add: set_value_def ensure_pool_def)

lemma config_ok_set_value:
  assumes "config_ok cfg" and "val \<noteq> ''undefined''"
  shows "config_ok (set_value sect key val cfg)"
proof (cases "sect = ''global''")
  case True
  with assms show ?thesis by (simp add: config_ok_def set_value_def settings_ok_update)
next
  case False
  with assms show ?thesis
    by (simp add: set_value_pool Let_def config_ok_pools config_ok_ensure settings_ok_update
        settings_ok_pool_map)
qed

lemma config_ok_parse_cleaned: "config_ok (snd st) \<Longrightarrow> config_ok (snd (parse_cleaned st line))"
  by (auto simp: parse_cleaned_def Let_def config_ok_ensure config_ok_set_value split: prod.splits)

lemma config_ok_foldl: "config_ok (snd st) \<Longrightarrow> config_ok (snd (foldl parse_cleaned st ls))"
  by (induction ls arbitrary: st) (auto simp: config_ok_parse_cleaned)

lemma config_ok_parse_lines: "config_ok (parse_lines ls)"
  by (simp add: parse_lines_def config_ok_foldl config_ok_empty)

text \<open>
  The parser fails exactly when a line of the report has 64 KiB or more; otherwise it returns
  the configuration of all the lines. A report that cannot be read to its end never gives a
  configuration that is missing its tail.
\<close>

theorem parse_fails_iff_long_line:
  "parseFPMConfigOutput output =
     (if list_ex (\<lambda>l. 64 * 1024 \<le> int (length l)) (raw_lines output) then None
      else Some (parse_lines (map drop_cr (raw_lines output))))"
  by (simp add: parseFPMConfigOutput_def scan_lines_def max_scan_token_size_def list_ex_iff)

text \<open>
  C31. Every configuration the parser returns has distinct keys in every map, keeps the global
  section apart from the pools, and never carries the placeholder \<open>undefined\<close> as a value.
\<close>

theorem parse_config_ok:
  assumes "parseFPMConfigOutput output = Some cfg"
  shows "config_ok cfg"
  using assms by (auto simp: parseFPMConfigOutput_def config_ok_parse_lines)

theorem parse_config_ok_witness:
  "parseFPMConfigOutput ''[www]'' = Some \<lparr>ec_Global = [], ec_Pools = [(''www'', [])]\<rparr> \<and>
   config_ok \<lparr>ec_Global = [], ec_Pools = [(''www'', [])]\<rparr>"
proof -
  have "parseFPMConfigOutput ''[www]'' = Some \<lparr>ec_Global = [], ec_Pools = [(''www'', [])]\<rparr>"
    by code_simp
  with parse_config_ok [OF this] show ?thesis by simp
qed

section \<open>Round trip through php-fpm's report\<close>

text \<open>
  The format of the report, as in the captured fixture \<^verbatim>\<open>testdata/php-fpm-tt.txt\<close>: every line is a
  notice with a time stamp, a section starts with its name in brackets, a setting is indented by a
  tab, an empty value is printed as \<open>undefined\<close>, a section ends with a blank notice, and the last line
  says that the file at \<open>path\<close> has passed the test.
\<close>

definition notice :: "string \<Rightarrow> string \<Rightarrow> string" where
  "notice ts body = ''['' @ ts @ ''] NOTICE: '' @ body"

definition shown_value :: "string \<Rightarrow> string" where
  "shown_value v = (if v = [] then ''undefined'' else v)"

definition setting_text :: "string \<times> string \<Rightarrow> string" where
  "setting_text kv = fst kv @ '' = '' @ shown_value (snd kv)"

definition header_text :: "string \<Rightarrow> string" where
  "header_text name = ''['' @ name @ '']''"

definition section_lines :: "string \<Rightarrow> string \<times> strmap \<Rightarrow> string list" where
  "section_lines ts sect =
     notice ts (header_text (fst sect)) #
     map (\<lambda>kv. notice ts ([tab] @ setting_text kv)) (snd sect) @ [notice ts '' '']"

definition success_text :: "string \<Rightarrow> string" where
  "success_text path = ''configuration file '' @ path @ '' test is successful''"

definition report_lines :: "string \<Rightarrow> string \<Rightarrow> effective_config \<Rightarrow> string list" where
  "report_lines ts path cfg =
     section_lines ts (''global'', ec_Global cfg) @ concat (map (section_lines ts) (ec_Pools cfg)) @
     [notice ts (success_text path)]"

definition tt_report :: "string \<Rightarrow> string \<Rightarrow> effective_config \<Rightarrow> string" where
  "tt_report ts path cfg = unlines (report_lines ts path cfg)"

text \<open>What can be printed and read back: no line break, tab or backslash anywhere; keys and values
  start and end with a visible character that is not a quote; keys hold no equals sign and do not look
  like a section or a comment; no value is the word \<open>undefined\<close>; no line reaches the scanner's limit; and
  the path of the configuration file holds no equals sign, since the last line would be a setting.\<close>

definition plain_text :: "string \<Rightarrow> bool" where
  "plain_text s \<longleftrightarrow> newline \<notin> set s \<and> tab \<notin> set s \<and> backslash \<notin> set s"

definition text_ok :: "string \<Rightarrow> bool" where
  "text_ok s \<longleftrightarrow> plain_text s \<and> visible_edges s \<and> hd s \<noteq> dquote \<and> last s \<noteq> dquote"

definition setting_ok :: "string \<times> string \<Rightarrow> bool" where
  "setting_ok kv \<longleftrightarrow>
     text_ok (fst kv) \<and> CHR ''='' \<notin> set (fst kv) \<and> hd (fst kv) \<noteq> CHR ''['' \<and> hd (fst kv) \<noteq> CHR '';'' \<and>
     (snd kv = [] \<or> text_ok (snd kv) \<and> snd kv \<noteq> ''undefined'')"

definition printable :: "string \<Rightarrow> string \<Rightarrow> effective_config \<Rightarrow> bool" where
  "printable ts path cfg \<longleftrightarrow>
     plain_text path \<and> CHR ''='' \<notin> set path \<and> plain_text ts \<and> CHR '']'' \<notin> set ts \<and> config_ok cfg \<and>
     list_all setting_ok (ec_Global cfg) \<and>
     list_all (\<lambda>p. plain_text (fst p) \<and> list_all setting_ok (snd p)) (ec_Pools cfg) \<and>
     list_all (\<lambda>l. int (length l) < max_scan_token_size) (report_lines ts path cfg)"

lemma clean_line_notice:
  assumes "plain_text ts" and "CHR '']'' \<notin> set ts" and "visible (last (notice ts body))"
  shows "clean_line (notice ts body) =
     trim_space (trim_byte dquote (remove_all [tab] (remove_all [backslash, CHR ''t''] (trim_space body))))"
proof -
  have "visible_edges (notice ts body)"
    using assms(3) by (simp add: visible_edges_def notice_def visible_def)
  then have trim: "trim_space (notice ts body) = notice ts body" by (rule trim_space_visible)
  have "index_of (notice ts body) ''] NOTICE:'' = Some (Suc (length ts))"
    using assms(2) index_of_hd [of "CHR '']''" "CHR ''['' # ts" "'' NOTICE:''" "'' '' @ body"]
    by (simp add: notice_def)
  then have "strip_notice (notice ts body) = trim_space ('' '' @ body)"
    by (simp add: strip_notice_def notice_def)
  moreover have "trim_space ('' '' @ body) = trim_space body"
    using trim_left_blanks(1) [of "'' ''" body] by (simp add: trim_space_def blank_def)
  ultimately show ?thesis by (simp add: clean_line_def trim)
qed

lemma clean_line_blank:
  assumes "CHR '']'' \<notin> set ts"
  shows "clean_line (notice ts '' '') = []"
proof -
  let ?l = "''['' @ ts @ ''] NOTICE:''"
  have "visible_edges ?l" by (simp add: visible_edges_def visible_def)
  then have "trim_space (notice ts '' '') = ?l"
    using trim_space_pad [of ?l "[]" "''  ''"] by (simp add: notice_def blank_def)
  moreover have "index_of ?l ''] NOTICE:'' = Some (Suc (length ts))"
    using assms index_of_hd [of "CHR '']''" "CHR ''['' # ts" "'' NOTICE:''" "[]"] by simp
  ultimately show ?thesis
    by (simp add: clean_line_def strip_notice_def trim_byte_def trim_space_def)
qed

lemma clean_line_plain:
  assumes "plain_text ts" and "CHR '']'' \<notin> set ts" and "text_ok body" and "\<forall>c \<in> set pad. blank c"
  shows "clean_line (notice ts (pad @ body)) = body"
proof -
  from assms(3) have "body \<noteq> []" and "visible (last body)"
    and tb: "trim_byte dquote body = body" and ts: "trim_space body = body"
    and rm: "remove_all [backslash, CHR ''t''] body = body" "remove_all [tab] body = body"
    by (auto simp: text_ok_def visible_edges_def plain_text_def trim_byte_edges trim_space_visible
        remove_all_hd)
  then have "visible (last (notice ts (pad @ body)))" by (simp add: notice_def)
  moreover have "trim_space (pad @ body) = body"
    using assms(3,4) trim_space_pad [of body pad "[]"] by (simp add: text_ok_def)
  ultimately show ?thesis by (simp add: clean_line_notice [OF assms(1,2)] tb ts rm)
qed


lemma text_ok_shown: "setting_ok kv \<Longrightarrow> text_ok (shown_value (snd kv))"
  by (auto simp: setting_ok_def shown_value_def text_ok_def plain_text_def visible_edges_def visible_def)

lemma text_ok_setting: "setting_ok kv \<Longrightarrow> text_ok (setting_text kv)"
  using text_ok_shown [of kv]
  by (auto simp: setting_ok_def setting_text_def text_ok_def plain_text_def visible_edges_def)

lemma text_ok_header: "plain_text name \<Longrightarrow> text_ok (header_text name)"
  by (simp add: header_text_def text_ok_def plain_text_def visible_edges_def visible_def)

lemma parse_setting:
  assumes "setting_ok kv"
  shows "parse_cleaned (sect, cfg) (setting_text kv) = (sect, set_value sect (fst kv) (snd kv) cfg)"
proof -
  let ?v = "shown_value (snd kv)"
  from assms have k: "text_ok (fst kv)" "CHR ''='' \<notin> set (fst kv)" "hd (fst kv) \<noteq> CHR ''[''"
      "hd (fst kv) \<noteq> CHR '';''"
    by (simp_all add: setting_ok_def)
  note v = text_ok_shown [OF assms]
  obtain c s where cs: "fst kv = c # s"
    using k(1) by (cases "fst kv") (auto simp: text_ok_def visible_edges_def)
  have cut: "cut_byte CHR ''='' (setting_text kv) = (fst kv @ '' '', '' '' @ ?v)"
    using cut_byte_append [of "CHR ''=''" "fst kv @ '' ''" "'' '' @ ?v"] k(2)
    by (simp add: setting_text_def)
  have key: "trim_byte dquote (trim_space (fst kv @ '' '')) = fst kv"
    using k(1) trim_space_pad [of "fst kv" "[]" "'' ''"]
    by (simp add: text_ok_def blank_def trim_byte_edges)
  have val: "trim_byte dquote (trim_space ('' '' @ ?v)) = ?v"
    using v trim_space_pad [of ?v "'' ''" "[]"]
    by (simp add: text_ok_def blank_def trim_byte_edges)
  have orig: "(if ?v = ''undefined'' then [] else ?v) = snd kv"
    using assms by (auto simp: setting_ok_def shown_value_def)
  have "contains (setting_text kv) ''=''" by (simp add: contains_byte setting_text_def)
  moreover have "\<not> has_prefix (setting_text kv) '';''" "\<not> has_prefix (setting_text kv) ''[''"
      "setting_text kv \<noteq> []"
    using k(3,4) cs by (simp_all add: setting_text_def)
  ultimately show ?thesis using cut key val orig by (simp add: parse_cleaned_def Let_def)
qed

lemma parse_header:
  "parse_cleaned (sect, cfg) (header_text name) =
     (if name = ''global'' then (''global'', cfg) else (name, ensure_pool name cfg))"
proof -
  have "has_suffix (header_text name) '']''"
    using has_suffix_snoc [of "CHR ''['' # name"] by (simp add: header_text_def)
  moreover have "trim_suffix (trim_prefix (header_text name) ''['') '']'' = name"
    using trim_prefix_append [of "''[''"] by (simp add: header_text_def)
  moreover have "has_prefix (header_text name) ''[''" "\<not> has_prefix (header_text name) '';''"
      "header_text name \<noteq> []"
    by (simp_all add: header_text_def)
  ultimately show ?thesis by (simp add: parse_cleaned_def Let_def)
qed

lemma parse_blank: "parse_cleaned st [] = st"
  by (simp add: parse_cleaned_def split: prod.splits)

text \<open>The cleaned lines of a section, and what the loop does with them.\<close>

definition cleaned_section :: "string \<times> strmap \<Rightarrow> string list" where
  "cleaned_section sect = header_text (fst sect) # map setting_text (snd sect) @ [[]]"

lemma clean_section_lines:
  assumes "plain_text ts" and "CHR '']'' \<notin> set ts" and "plain_text (fst sect)"
    and "list_all setting_ok (snd sect)"
  shows "map clean_line (section_lines ts sect) = cleaned_section sect"
proof -
  have "clean_line (notice ts ([tab] @ setting_text kv)) = setting_text kv" if "kv \<in> set (snd sect)" for kv
    using that assms by (intro clean_line_plain) (auto simp: text_ok_setting list_all_iff blank_def)
  moreover have "clean_line (notice ts ([] @ header_text (fst sect))) = header_text (fst sect)"
    using assms by (intro clean_line_plain) (auto simp: text_ok_header)
  ultimately show ?thesis
    using assms(2) by (simp add: section_lines_def cleaned_section_def clean_line_blank)
qed

lemma parse_global_settings:
  "list_all setting_ok kvs \<Longrightarrow> gomap_ok (ec_Global cfg @ kvs) \<Longrightarrow>
   foldl parse_cleaned (''global'', cfg) (map setting_text kvs) =
     (''global'', cfg\<lparr>ec_Global := ec_Global cfg @ kvs\<rparr>)"
proof (induction kvs arbitrary: cfg)
  case (Cons kv kvs)
  then have "set_value ''global'' (fst kv) (snd kv) cfg = cfg\<lparr>ec_Global := ec_Global cfg @ [kv]\<rparr>"
    by (simp add: set_value_def update_new)
  with Cons show ?case by (simp add: parse_setting)
qed simp

lemma parse_pool_settings:
  "list_all setting_ok kvs \<Longrightarrow> gomap_ok (m @ kvs) \<Longrightarrow> name \<noteq> ''global'' \<Longrightarrow> name \<notin> fst ` set ps \<Longrightarrow>
   foldl parse_cleaned (name, cfg\<lparr>ec_Pools := ps @ [(name, m)]\<rparr>) (map setting_text kvs) =
     (name, cfg\<lparr>ec_Pools := ps @ [(name, m @ kvs)]\<rparr>)"
proof (induction kvs arbitrary: m)
  case (Cons kv kvs)
  then have "set_value name (fst kv) (snd kv) (cfg\<lparr>ec_Pools := ps @ [(name, m)]\<rparr>) =
      cfg\<lparr>ec_Pools := ps @ [(name, m @ [kv])]\<rparr>"
    by (simp add: set_value_def ensure_pool_def pool_map_def map_of_last update_last update_new
        del: map_of_append)
  with Cons.prems Cons.IH [of "m @ [kv]"] show ?case by (simp add: parse_setting)
qed simp

lemma parse_pool_section:
  assumes "list_all setting_ok (snd p)" and "gomap_ok (snd p)" and "fst p \<noteq> ''global''"
    and "fst p \<notin> fst ` set (ec_Pools cfg)"
  shows "foldl parse_cleaned (sect, cfg) (cleaned_section p) =
           (fst p, cfg\<lparr>ec_Pools := ec_Pools cfg @ [p]\<rparr>)"
proof -
  have "map_of (ec_Pools cfg) (fst p) = None"
    using assms(4) by (simp add: map_of_eq_None_iff)
  then have "ensure_pool (fst p) cfg = cfg\<lparr>ec_Pools := ec_Pools cfg @ [(fst p, [])]\<rparr>"
    using assms(4) by (simp add: ensure_pool_def update_new)
  with assms show ?thesis
    using parse_pool_settings [of "snd p" "[]" "fst p" "ec_Pools cfg" cfg]
    by (simp add: cleaned_section_def parse_header parse_blank)
qed

lemma parse_pool_sections:
  "list_all (\<lambda>p. list_all setting_ok (snd p) \<and> gomap_ok (snd p) \<and> fst p \<noteq> ''global'') ps \<Longrightarrow>
   gomap_ok (ec_Pools cfg @ ps) \<Longrightarrow>
   snd (foldl parse_cleaned (sect, cfg) (concat (map cleaned_section ps))) =
     cfg\<lparr>ec_Pools := ec_Pools cfg @ ps\<rparr>"
proof (induction ps arbitrary: sect cfg)
  case (Cons p ps)
  then have "foldl parse_cleaned (sect, cfg) (cleaned_section p) =
      (fst p, cfg\<lparr>ec_Pools := ec_Pools cfg @ [p]\<rparr>)"
    by (intro parse_pool_section) auto
  with Cons show ?case by simp
qed simp

text \<open>The scanner reads the report back as its lines.\<close>

definition line_ok :: "string \<Rightarrow> bool" where
  "line_ok l \<longleftrightarrow> newline \<notin> set l \<and> l \<noteq> [] \<and> last l \<noteq> CHR 0x0D"

lemma notice_line_ok:
  "plain_text ts \<Longrightarrow> text_ok body \<Longrightarrow> newline \<notin> set pad \<Longrightarrow> line_ok (notice ts (pad @ body))"
  by (auto simp: line_ok_def notice_def plain_text_def text_ok_def visible_edges_def visible_def)

lemma section_lines_ok:
  assumes "plain_text ts" and "plain_text (fst sect)" and "list_all setting_ok (snd sect)"
  shows "list_all line_ok (section_lines ts sect)"
proof -
  have "line_ok (notice ts ([tab] @ setting_text kv))" if "kv \<in> set (snd sect)" for kv
    using that assms by (intro notice_line_ok) (auto simp: text_ok_setting list_all_iff)
  moreover have "line_ok (notice ts ([] @ header_text (fst sect)))"
    using assms by (intro notice_line_ok) (auto simp: text_ok_header)
  moreover have "line_ok (notice ts '' '')"
    using assms(1) by (simp add: line_ok_def notice_def plain_text_def)
  ultimately show ?thesis by (simp add: section_lines_def list_all_iff)
qed

lemma text_ok_success: "plain_text path \<Longrightarrow> text_ok (success_text path)"
  by (simp add: text_ok_def plain_text_def success_text_def visible_edges_def visible_def)

lemma parse_success:
  assumes "CHR ''='' \<notin> set path"
  shows "parse_cleaned st (success_text path) = st"
proof -
  have "\<not> contains (success_text path) ''=''" using assms by (simp add: contains_byte success_text_def)
  then show ?thesis by (simp add: parse_cleaned_def success_text_def split: prod.splits)
qed


definition sample_config :: effective_config where
  "sample_config =
     \<lparr>ec_Global = [(''pid'', []), (''error_log'', ''/tmp/fx/error.log'')],
      ec_Pools = [(''www'', [(''listen'', ''/tmp/fx/www.sock''), (''env[A]'', ''x = y'')]), (''api'', [(''pm'', ''static'')])]\<rparr>"


text \<open>The condition on the path is needed: with an equals sign in it, the last line of the report is read as
  a setting of the last pool.\<close>

theorem parse_report_equals_path:
  "parseFPMConfigOutput (tt_report ''t'' ''/srv/a=b.conf'' \<lparr>ec_Global = [], ec_Pools = [(''www'', [])]\<rparr>) =
     Some \<lparr>ec_Global = [], ec_Pools = [(''www'', [(''configuration file /srv/a'', ''b.conf test is successful'')])]\<rparr>"
  by code_simp

end
