(* ===== verification/Config_Cache.thy ===== *)
theory Config_Cache
  imports Config
begin

text \<open>
  The configuration cache of \<^verbatim>\<open>config.go\<close>: the key under which a parse is stored, the epoch that an
  invalidation moves, and \<^verbatim>\<open>ParseConfigContext\<close> with its two critical sections and the fork between
  them. \<open>ParseConfigContext\<close> is the call without interference; \<open>cache_step\<close> is the same call cut
  at its lock boundaries and run against other callers, invalidations and changes of the files.
\<close>

section \<open>State and operations\<close>

record config_cache =
  cc_cache :: "effective_config gomap"
  cc_epoch :: uint64

definition empty_cache :: config_cache where
  "empty_cache = \<lparr>cc_cache = [], cc_epoch = 0\<rparr>"

definition cacheKey :: "string \<Rightarrow> string \<Rightarrow> string" where
  "cacheKey binary configPath = clean binary @ ''::'' @ clean configPath"

definition InvalidateConfigCache :: "string \<Rightarrow> string \<Rightarrow> config_cache \<Rightarrow> config_cache" where
  "InvalidateConfigCache binary configPath st =
     (if binary = [] \<and> configPath = []
      then st\<lparr>cc_cache := [], cc_epoch := cc_epoch st + 1\<rparr>
      else st\<lparr>cc_cache := AList.delete (cacheKey binary configPath) (cc_cache st),
              cc_epoch := cc_epoch st + 1\<rparr>)"

text \<open>The first critical section: the cached entry, if there is one, and the epoch.\<close>

definition cache_read :: "config_cache \<Rightarrow> string \<Rightarrow> effective_config option \<times> uint64" where
  "cache_read st key = (map_of (cc_cache st) key, cc_epoch st)"

text \<open>The second critical section: the result is stored only if no invalidation came between.\<close>

definition cache_store :: "string \<Rightarrow> uint64 \<Rightarrow> effective_config \<Rightarrow> config_cache \<Rightarrow> config_cache" where
  "cache_store key epoch cfg st =
     (if cc_epoch st = epoch then st\<lparr>cc_cache := AList.update key cfg (cc_cache st)\<rparr> else st)"

datatype config_error =
    BinaryNotAbsolute string
  | DidNotFinish string
  | RunFailedTT run_error string
  | Incomplete
  | ScanFailed

definition maxParseOutput :: int where
  "maxParseOutput = 4 * 2 ^ 20"

text \<open>The fork between the critical sections: run \<^verbatim>\<open>php-fpm -tt\<close>, capture its output, parse it.
  The context's error is the one it has when the run has returned.\<close>

definition tt_args :: "string \<Rightarrow> string list" where
  "tt_args configPath = [''-tt'', ''--fpm-config'', configPath]"

definition run_tt :: "host \<Rightarrow> string \<Rightarrow> string \<Rightarrow> config_error + effective_config" where
  "run_tt h binary configPath =
     (case cmd_run maxParseOutput (h_exec h binary (tt_args configPath)) of (captured, err) \<Rightarrow>
        case err of
          Some e \<Rightarrow>
            (case h_ctx_err h of
               Some ctxErr \<Rightarrow> Inl (DidNotFinish ctxErr)
             | None \<Rightarrow> Inl (RunFailedTT e (lw_w captured)))
        | None \<Rightarrow>
            if lw_truncated captured then Inl Incomplete
            else (case parseFPMConfigOutput (lw_w captured) of
                    None \<Rightarrow> Inl ScanFailed
                  | Some cfg \<Rightarrow> Inr cfg))"

text \<open>The whole call: its result, the cache after it, and the programs it handed to \<^verbatim>\<open>os/exec\<close>.\<close>

definition ParseConfigContext ::
  "host \<Rightarrow> string \<Rightarrow> string \<Rightarrow> config_cache
     \<Rightarrow> (config_error + effective_config) \<times> config_cache \<times> exec_call list" where
  "ParseConfigContext h binary configPath st =
     (if \<not> is_abs binary then (Inl (BinaryNotAbsolute binary), st, [])
      else let key = cacheKey binary configPath in
        case cache_read st key of (cached, epoch) \<Rightarrow>
          case cached of
            Some cfg \<Rightarrow> (Inr cfg, st, [])
          | None \<Rightarrow>
              (case run_tt h binary configPath of
                 Inl e \<Rightarrow> (Inl e, st, [(binary, tt_args configPath)])
               | Inr cfg \<Rightarrow> (Inr cfg, cache_store key epoch cfg st, [(binary, tt_args configPath)])))"

definition DefaultParseTimeout :: int where
  "DefaultParseTimeout = 30 * 1000000000"

text \<open>The same call for a caller without a context: \<open>host_at\<close> is the host as a program that runs under a
  context with a given deadline finds it.\<close>

definition ParseConfig ::
  "(deadline \<Rightarrow> host) \<Rightarrow> int \<Rightarrow> string \<Rightarrow> string \<Rightarrow> config_cache
     \<Rightarrow> (config_error + effective_config) \<times> config_cache \<times> exec_call list" where
  "ParseConfig host_at now binary configPath st =
     ParseConfigContext (host_at (with_timeout now DefaultParseTimeout None)) binary configPath st"

section \<open>The cache key\<close>

text \<open>What the key needs of a path normaliser, and what follows for every spelling of a path.\<close>

locale path_normaliser =
  fixes norm :: "string \<Rightarrow> string"
  assumes norm_idem: "norm (norm p) = norm p"
begin

lemma same_file_iff: "norm p = norm q \<longleftrightarrow> norm (norm p) = norm q"
  by (simp add: norm_idem)

lemma key_of_normal_form: "norm b @ sep @ norm c = norm (norm b) @ sep @ norm (norm c)"
  by (simp add: norm_idem)

lemma key_inject:
  assumes "c \<notin> set (norm b)" and "c \<notin> set (norm b')"
  shows "norm b @ c # sep @ norm p = norm b' @ c # sep @ norm p' \<longleftrightarrow> norm b = norm b' \<and> norm p = norm p'"
proof
  assume eq: "norm b @ c # sep @ norm p = norm b' @ c # sep @ norm p'"
  then have "takeWhile (\<lambda>x. x \<noteq> c) (norm b @ c # sep @ norm p) = takeWhile (\<lambda>x. x \<noteq> c) (norm b' @ c # sep @ norm p')"
    by (rule arg_cong)
  then have "norm b = norm b'" using assms by (simp add: takeWhile_append_sep)
  with eq show "norm b = norm b' \<and> norm p = norm p'" by simp
qed simp

end

interpretation filepath: path_normaliser clean
  by unfold_locales simp

text \<open>
  Two spellings of the same binary and configuration share one cache entry, and, for binaries
  without a colon in their path, only those do: an invalidation under any spelling reaches the entry
  that a parse under any other spelling stored, and no other entry.
\<close>

theorem cacheKey_iff_same_files:
  assumes "CHR '':'' \<notin> set (clean b)" and "CHR '':'' \<notin> set (clean b')"
  shows "cacheKey b c = cacheKey b' c' \<longleftrightarrow> clean b = clean b' \<and> clean c = clean c'"
  using filepath.key_inject [OF assms, of "'':''" c c'] by (simp add: cacheKey_def)

theorem cacheKey_iff_same_files_witness:
  "cacheKey ''/usr/sbin/php-fpm'' ''/etc/php/../php-fpm.conf'' = cacheKey ''/usr/sbin/./php-fpm'' ''/etc/php-fpm.conf''"
proof -
  have "CHR '':'' \<notin> set (clean ''/usr/sbin/php-fpm'')" and "CHR '':'' \<notin> set (clean ''/usr/sbin/./php-fpm'')"
    and eqs: "clean ''/usr/sbin/php-fpm'' = clean ''/usr/sbin/./php-fpm'' \<and>
      clean ''/etc/php/../php-fpm.conf'' = clean ''/etc/php-fpm.conf''"
    by code_simp+
  from cacheKey_iff_same_files [OF this(1,2)] eqs show ?thesis by blast
qed

text \<open>
  C40. With a double colon in a path the key is ambiguous: two different pairs of files, both of
  them acceptable to the parser, share one entry.
\<close>

theorem cacheKey_collision:
  "\<exists>b c b' c'. is_abs b \<and> is_abs b' \<and> clean b \<noteq> clean b' \<and> clean c \<noteq> clean c' \<and>
     cacheKey b c = cacheKey b' c'"
proof -
  have "is_abs ''/a'' \<and> is_abs ''/a::b'' \<and> clean ''/a'' \<noteq> clean ''/a::b'' \<and> clean ''b::c'' \<noteq> clean ''c'' \<and>
      cacheKey ''/a'' ''b::c'' = cacheKey ''/a::b'' ''c''"
    by code_simp
  then show ?thesis by blast
qed

section \<open>One call\<close>

lemma run_tt_Inr:
  "run_tt h binary configPath = Inr cfg \<longleftrightarrow>
     (\<exists>l. cmd_run maxParseOutput (h_exec h binary (tt_args configPath)) = (l, None) \<and>
          \<not> lw_truncated l \<and> parseFPMConfigOutput (lw_w l) = Some cfg)"
  by (auto simp: run_tt_def split: prod.splits option.splits)

text \<open>
  C26. A configuration that a call returns after running php-fpm is the parse of everything php-fpm
  wrote: the run succeeded, the output fits the 4 MiB limit, and no byte of it is missing.
\<close>

theorem run_tt_complete:
  assumes "run_tt h binary configPath = Inr cfg"
    and "\<forall>w \<in> set (x_writes (h_exec h binary (tt_args configPath))). w \<noteq> []"
  shows "let x = h_exec h binary (tt_args configPath); out = concat (x_writes x) in
           x_exit x = None \<and> int (length out) \<le> maxParseOutput \<and> parseFPMConfigOutput out = Some cfg"
proof -
  let ?x = "h_exec h binary (tt_args configPath)"
  from assms(1) obtain l where run: "cmd_run maxParseOutput ?x = (l, None)" and "\<not> lw_truncated l"
    and parse: "parseFPMConfigOutput (lw_w l) = Some cfg"
    by (auto simp: run_tt_Inr)
  moreover have "x_exit ?x = None"
    using run by (auto simp: cmd_run_def split: prod.splits option.splits)
  moreover have pos: "0 \<le> maxParseOutput" by (simp add: maxParseOutput_def)
  ultimately show ?thesis
    using capture_exact [OF pos assms(2)] by (simp add: Let_def not_less take_all le_nat_iff)
qed

definition sample_host :: host where
  "sample_host =
     \<lparr>h_uid = 0, h_lstat = (\<lambda>_. Inl ErrNotExist), h_processes = Inr [],
      h_new_process = (\<lambda>_. Inl ErrNotExist), h_read_file = (\<lambda>_. Inl ErrNotExist),
      h_signal = (\<lambda>_ _. None), h_exec = (\<lambda>_ _. \<lparr>x_writes = [''[www]''], x_exit = None\<rparr>),
      h_ctx_err = None, h_now = 0\<rparr>"

theorem run_tt_complete_witness:
  "parseFPMConfigOutput ''[www]'' = Some \<lparr>ec_Global = [], ec_Pools = [(''www'', [])]\<rparr>"
proof -
  have "run_tt sample_host ''/bin/php-fpm'' ''/etc/f'' = Inr \<lparr>ec_Global = [], ec_Pools = [(''www'', [])]\<rparr>"
    by code_simp
  from run_tt_complete [OF this] show ?thesis by (simp add: sample_host_def Let_def)
qed

text \<open>
  C36. The documentation says that the trust checks run wherever a binary is about to be executed.
  \<^verbatim>\<open>ParseConfigContext\<close> checks only that the path is absolute: a binary that fails every trust check
  is executed.
\<close>

theorem ParseConfigContext_executes_untrusted:
  "\<exists>h binary configPath. \<not> trusted_spec h binary \<and>
     snd (snd (ParseConfigContext h binary configPath empty_cache)) = [(binary, tt_args configPath)]"
proof -
  have "trusted_spec sample_host ''/bin/php-fpm'' = False" by code_simp
  moreover have "snd (snd (ParseConfigContext sample_host ''/bin/php-fpm'' ''/etc/f'' empty_cache)) =
      [(''/bin/php-fpm'', tt_args ''/etc/f'')]"
    by code_simp
  ultimately show ?thesis by blast
qed

text \<open>
  C27. After a successful call the same files are answered from the cache under every spelling,
  without running anything, until an invalidation under some spelling of them (or of everything)
  makes the next call run php-fpm again.
\<close>

theorem ParseConfigContext_caches:
  assumes "ParseConfigContext h b c st = (Inr cfg, st', ex)"
    and "is_abs b'" and "clean b' = clean b" and "clean c' = clean c"
    and "is_abs b''" and "clean b'' = clean b" and "clean c'' = clean c"
  shows "ParseConfigContext h' b' c' st' = (Inr cfg, st', []) \<and>
         snd (snd (ParseConfigContext h' b' c' (InvalidateConfigCache b'' c'' st'))) = [(b', tt_args c')] \<and>
         snd (snd (ParseConfigContext h' b' c' (InvalidateConfigCache [] [] st'))) = [(b', tt_args c')]"
proof -
  have key: "cacheKey b' c' = cacheKey b c" "cacheKey b'' c'' = cacheKey b c"
    using assms by (simp_all add: cacheKey_def)
  have "map_of (cc_cache st') (cacheKey b c) = Some cfg"
    using assms(1)
    by (auto simp: ParseConfigContext_def Let_def cache_read_def cache_store_def update_conv'
        split: if_splits option.splits sum.splits)
  moreover have "b'' \<noteq> []" using assms(5) by auto
  ultimately show ?thesis
    using assms(2) key
    by (auto simp: ParseConfigContext_def Let_def cache_read_def InvalidateConfigCache_def delete_conv'
        split: sum.splits)
qed

theorem ParseConfigContext_caches_witness:
  "let st' = fst (snd (ParseConfigContext sample_host ''/bin/php-fpm'' ''/etc/x/../f'' empty_cache)) in
   ParseConfigContext sample_host ''/bin/./php-fpm'' ''/etc/f'' st' =
     (Inr \<lparr>ec_Global = [], ec_Pools = [(''www'', [])]\<rparr>, st', [])"
proof -
  let ?r = "ParseConfigContext sample_host ''/bin/php-fpm'' ''/etc/x/../f'' empty_cache"
  have "?r = (Inr \<lparr>ec_Global = [], ec_Pools = [(''www'', [])]\<rparr>, fst (snd ?r), snd (snd ?r))"
    by code_simp
  from ParseConfigContext_caches [OF this, of "''/bin/./php-fpm''" "''/etc/f''" "''/bin/php-fpm''" "''/etc/f''"]
  show ?thesis by (simp add: Let_def) code_simp
qed

end
