(* ===== verification/Discover.thy ===== *)
theory Discover
  imports Config_Cache
begin

text \<open>
  \<^verbatim>\<open>discover.go\<close>: recognising php-fpm masters in the process table, the two scans built on it
  (\<^verbatim>\<open>DiscoverMasters\<close>, which parses nothing, and \<^verbatim>\<open>discoverContext\<close>, which parses each master's
  configuration and sorts its pools), and the small readers of listen addresses and process titles;
  and \<^verbatim>\<open>ParseAddress\<close> of \<^verbatim>\<open>metrics.go\<close>, which reads back the addresses discovery writes. Log
  output is not part of the model, except for the level that \<^verbatim>\<open>logSkip\<close> chooses.
\<close>

section \<open>Names, titles and addresses\<close>

text \<open>
  \<^verbatim>\<open>fpmNamePattern\<close>, the expression \<^verbatim>\<open>^php[0-9]{0,2}.*fpm.*$\<close>: the literal, up to two digits, and
  then the second literal between two stretches that hold no line break.
\<close>

definition dots_fpm_dots :: "string \<Rightarrow> bool" where
  "dots_fpm_dots s \<longleftrightarrow>
     list_ex (\<lambda>i. newline \<notin> set (take i s) \<and> has_prefix (drop i s) ''fpm'' \<and> newline \<notin> set (drop (i + 3) s))
       [0..<length s + 1]"

definition fpmNamePattern :: "string \<Rightarrow> bool" where
  "fpmNamePattern s \<longleftrightarrow>
     has_prefix s ''php'' \<and>
     list_ex (\<lambda>k. k \<le> length (drop 3 s) \<and> list_all (\<lambda>c. digit_val c \<noteq> None) (take k (drop 3 s)) \<and>
                  dots_fpm_dots (drop k (drop 3 s))) [0, 1, 2]"

definition extractConfigFromMaster :: "string \<Rightarrow> string" where
  "extractConfigFromMaster cmdline =
     (case (index_of cmdline ''('', index_of cmdline '')'') of
        (Some start, Some end') \<Rightarrow>
          if start < end' then take (end' - (start + 1)) (drop (start + 1) cmdline) else []
      | _ \<Rightarrow> [])"

definition parseSocket :: "string \<Rightarrow> string" where
  "parseSocket socket =
     (if socket = [] then []
      else if has_prefix socket ''/'' then ''unix://'' @ socket
      else if contains socket '':'' then ''tcp://'' @ socket
      else if snd (atoi socket) = None then ''tcp://127.0.0.1:'' @ socket
      else [])"

datatype address_error = UnsupportedSocket string

definition ParseAddress :: "string \<Rightarrow> string \<Rightarrow> address_error + (string \<times> string \<times> string)" where
  "ParseAddress addr path =
     (if has_prefix addr ''unix://'' then Inr (''unix'', trim_prefix addr ''unix://'', path)
      else if has_prefix addr ''tcp://'' then Inr (''tcp'', trim_prefix addr ''tcp://'', path)
      else if has_prefix addr ''/'' then Inr (''unix'', addr, path)
      else Inl (UnsupportedSocket addr))"

section \<open>Masters\<close>

datatype log_level = LogDebug | LogWarn

definition logSkip :: "trust_error \<Rightarrow> log_level" where
  "logSkip err = (case err of PathMissing _ \<Rightarrow> LogDebug | _ \<Rightarrow> LogWarn)"

record master =
  m_PID :: int
  m_Binary :: string
  m_ConfigPath :: string

text \<open>The binary and the configuration path, or \<open>None\<close> when the process is not a master this
  process trusts.\<close>

definition masterIdentity :: "host \<Rightarrow> proc_handle \<Rightarrow> (string \<times> string) option" where
  "masterIdentity h p =
     (case p_name p of
        Inl _ \<Rightarrow> None
      | Inr name \<Rightarrow>
          if \<not> fpmNamePattern (base name) then None
          else (case p_cmdline p of
             Inl _ \<Rightarrow> None
           | Inr cmdline \<Rightarrow>
               if \<not> contains cmdline ''master process'' then None
               else let config = extractConfigFromMaster cmdline in
                 if config = [] then None
                 else (case p_exe p of
                    Inl _ \<Rightarrow> None
                  | Inr exe \<Rightarrow>
                      if trustedPath h exe \<noteq> None then None
                      else if trustedPath h config \<noteq> None then None
                      else Some (exe, config))))"

definition master_of :: "host \<Rightarrow> proc_handle \<Rightarrow> master option" where
  "master_of h p =
     (case masterIdentity h p of
        None \<Rightarrow> None
      | Some (exe, config) \<Rightarrow> Some \<lparr>m_PID = p_pid p, m_Binary = exe, m_ConfigPath = config\<rparr>)"

definition DiscoverMasters :: "host \<Rightarrow> os_error + master list" where
  "DiscoverMasters h =
     (case h_processes h of
        Inl e \<Rightarrow> Inl e
      | Inr procs \<Rightarrow> Inr (List.map_filter (master_of h) procs))"

section \<open>Pools\<close>

record discovered =
  d_Name :: string
  d_ConfigPath :: string
  d_StatusPath :: string
  d_Binary :: string
  d_Socket :: string
  d_StatusSocket :: string
  d_MaxChildren :: int
  d_ProcessManager :: string
  d_Workload :: string
  d_PID :: int

record unstatused =
  u_Name :: string
  u_ConfigPath :: string
  u_Binary :: string
  u_PID :: int
  u_Socket :: string

text \<open>The body of the loop over one master's pools: nothing for a pool without a usable listen
  address, and otherwise an entry in one of the two result lists. An error of \<^verbatim>\<open>Atoi\<close> is ignored and
  its value kept.\<close>

definition classify_pool ::
  "master \<Rightarrow> strmap \<Rightarrow> string \<times> strmap \<Rightarrow> (discovered + unstatused) option" where
  "classify_pool m global pool =
     (let cfg = snd pool;
          socket = parseSocket (go_index cfg ''listen'')
      in if socket = [] then None
         else
           let statusListen = parseSocket (go_index cfg ''pm.status_listen'');
               statusSocket = (if statusListen = [] then socket else statusListen);
               own = go_index cfg ''pm.status_path'';
               status = (if own = [] then go_index global ''pm.status_path'' else own)
           in if status = [] then
                Some (Inr \<lparr>u_Name = fst pool, u_ConfigPath = m_ConfigPath m, u_Binary = m_Binary m,
                           u_PID = m_PID m, u_Socket = socket\<rparr>)
              else
                Some (Inl \<lparr>d_Name = fst pool, d_ConfigPath = m_ConfigPath m, d_StatusPath = status,
                           d_Binary = m_Binary m, d_Socket = socket, d_StatusSocket = statusSocket,
                           d_MaxChildren = fst (atoi (trim_space (go_index cfg ''pm.max_children''))),
                           d_ProcessManager = trim_space (go_index cfg ''pm''),
                           d_Workload = trim_space (go_index cfg ''env[FPM_TUNE_WORKLOAD]''),
                           d_PID = m_PID m\<rparr>))"

text \<open>The loop over the pools of one master; \<open>order\<close> is the order in which Go ranges over the map.\<close>

definition pools_of ::
  "(strmap gomap \<Rightarrow> strmap gomap) \<Rightarrow> master \<Rightarrow> effective_config \<Rightarrow> discovered list \<times> unstatused list" where
  "pools_of order m cfg =
     (let rs = List.map_filter (classify_pool m (ec_Global cfg)) (order (ec_Pools cfg))
      in (List.map_filter (\<lambda>r. case r of Inl d \<Rightarrow> Some d | Inr _ \<Rightarrow> None) rs,
          List.map_filter (\<lambda>r. case r of Inl _ \<Rightarrow> None | Inr u \<Rightarrow> Some u) rs))"

text \<open>The outer loop: one parse per master, in the order of the process table, through the cache; a
  process that is no trusted master and a master whose configuration does not parse are skipped.\<close>

fun parse_masters ::
  "host \<Rightarrow> proc_handle list \<Rightarrow> config_cache
     \<Rightarrow> (master \<times> effective_config) list \<times> config_cache \<times> exec_call list" where
  "parse_masters h [] st = ([], st, [])"
| "parse_masters h (p # ps) st =
     (case master_of h p of
        None \<Rightarrow> parse_masters h ps st
      | Some m \<Rightarrow>
          (case ParseConfigContext h (m_Binary m) (m_ConfigPath m) st of (r, st', ex) \<Rightarrow>
             case parse_masters h ps st' of (rest, st'', ex') \<Rightarrow>
               ((case r of Inl _ \<Rightarrow> rest | Inr cfg \<Rightarrow> (m, cfg) # rest), st'', ex @ ex')))"

record discovery =
  r_found :: "discovered list"
  r_unstatused :: "unstatused list"
  r_cache :: config_cache
  r_execs :: "exec_call list"

definition discoverContext ::
  "(strmap gomap \<Rightarrow> strmap gomap) \<Rightarrow> host \<Rightarrow> config_cache \<Rightarrow> os_error + discovery" where
  "discoverContext order h st =
     (case h_processes h of
        Inl e \<Rightarrow> Inl e
      | Inr procs \<Rightarrow>
          (case parse_masters h procs st of (parsed, st', ex) \<Rightarrow>
             let rs = map (\<lambda>(m, cfg). pools_of order m cfg) parsed
             in Inr \<lparr>r_found = concat (map fst rs), r_unstatused = concat (map snd rs),
                     r_cache = st', r_execs = ex\<rparr>))"

text \<open>The results the callers get, with the cache as the scan leaves it. \<^verbatim>\<open>Discover\<close> brings a deadline of
  its own.\<close>

definition DiscoverContext ::
  "(strmap gomap \<Rightarrow> strmap gomap) \<Rightarrow> host \<Rightarrow> config_cache \<Rightarrow> os_error + discovered list \<times> config_cache" where
  "DiscoverContext order h st = map_sum id (\<lambda>r. (r_found r, r_cache r)) (discoverContext order h st)"

definition Discover ::
  "(strmap gomap \<Rightarrow> strmap gomap) \<Rightarrow> (deadline \<Rightarrow> host) \<Rightarrow> int \<Rightarrow> config_cache
     \<Rightarrow> os_error + discovered list \<times> config_cache" where
  "Discover order host_at now st =
     DiscoverContext order (host_at (with_timeout now DefaultParseTimeout None)) st"

definition UnstatusedPools ::
  "(strmap gomap \<Rightarrow> strmap gomap) \<Rightarrow> host \<Rightarrow> config_cache \<Rightarrow> os_error + unstatused list \<times> config_cache" where
  "UnstatusedPools order h st = map_sum id (\<lambda>r. (r_unstatused r, r_cache r)) (discoverContext order h st)"

section \<open>Reading names, titles and addresses\<close>

lemma dots_fpm_dots_iff: "dots_fpm_dots s \<longleftrightarrow> contains s ''fpm'' \<and> newline \<notin> set s"
proof
  assume "dots_fpm_dots s"
  then obtain i where i: "newline \<notin> set (take i s)" "has_prefix (drop i s) ''fpm''" "newline \<notin> set (drop (i + 3) s)"
    by (auto simp: dots_fpm_dots_def list_ex_iff)
  from i(2) obtain t where t: "drop i s = ''fpm'' @ t" by (auto simp: has_prefix_iff)
  have s: "s = take i s @ ''fpm'' @ t" using t append_take_drop_id [of i s] by simp
  have "drop (i + 3) s = drop 3 (drop i s)" by (simp add: add.commute)
  then have "newline \<notin> set t" using i(3) t by simp
  with i(1) have "newline \<notin> set (take i s @ ''fpm'' @ t)" by simp
  with s show "contains s ''fpm'' \<and> newline \<notin> set s" unfolding contains_iff by metis
next
  assume s: "contains s ''fpm'' \<and> newline \<notin> set s"
  then obtain a b where ab: "s = a @ ''fpm'' @ b" by (auto simp: contains_iff)
  with s have "newline \<notin> set (take (length a) s) \<and> has_prefix (drop (length a) s) ''fpm'' \<and>
      newline \<notin> set (drop (length a + 3) s)"
    by simp
  moreover have "length a \<in> set [0..<length s + 1]" using ab by simp
  ultimately show "dots_fpm_dots s" unfolding dots_fpm_dots_def list_ex_iff by blast
qed

lemma digits_then_dots:
  assumes "list_all (\<lambda>c. digit_val c \<noteq> None) (take k t)" and "dots_fpm_dots (drop k t)"
  shows "contains t ''fpm'' \<and> newline \<notin> set t"
proof -
  obtain a b where "drop k t = a @ ''fpm'' @ b" and nl: "newline \<notin> set (drop k t)"
    using assms(2) by (auto simp: dots_fpm_dots_iff contains_iff)
  then have "t = (take k t @ a) @ ''fpm'' @ b" using append_take_drop_id [of k t] by simp
  moreover have "newline \<notin> set (take k t)" using assms(1) by (auto simp: list_all_iff digit_val_def)
  then have "newline \<notin> set t" using nl set_append [of "take k t" "drop k t"] by auto
  ultimately show ?thesis unfolding contains_iff by blast
qed

text \<open>
  The pattern for process names accepts exactly the names that begin with \<open>php\<close>, contain
  \<open>fpm\<close> after that, and hold no line break: the digit class in the middle changes nothing.
\<close>

theorem fpmNamePattern_iff:
  "fpmNamePattern s \<longleftrightarrow> (\<exists>t. s = ''php'' @ t \<and> contains t ''fpm'' \<and> newline \<notin> set t)"
proof
  assume "fpmNamePattern s"
  then have "\<exists>k. list_all (\<lambda>c. digit_val c \<noteq> None) (take k (drop 3 s)) \<and> dots_fpm_dots (drop k (drop 3 s))"
    and "has_prefix s ''php''"
    unfolding fpmNamePattern_def list_ex_iff by blast+
  then have "contains (drop 3 s) ''fpm'' \<and> newline \<notin> set (drop 3 s)" and "s = ''php'' @ drop 3 s"
    using digits_then_dots by (blast, auto simp: has_prefix_iff)
  then show "\<exists>t. s = ''php'' @ t \<and> contains t ''fpm'' \<and> newline \<notin> set t" by blast
next
  assume "\<exists>t. s = ''php'' @ t \<and> contains t ''fpm'' \<and> newline \<notin> set t"
  then show "fpmNamePattern s" by (auto simp: fpmNamePattern_def dots_fpm_dots_iff)
qed

text \<open>
  The configuration path is recovered from any process title that carries it in its first pair
  of parentheses, as php-fpm writes it.
\<close>

theorem extractConfig_roundtrip:
  assumes "CHR ''('' \<notin> set pre" and "CHR '')'' \<notin> set pre" and "CHR '')'' \<notin> set path"
  shows "extractConfigFromMaster (pre @ ''('' @ path @ '')'' @ post) = path"
proof -
  let ?s = "pre @ ''('' @ path @ '')'' @ post"
  have "index_of ?s ''('' = Some (length pre)"
    using index_of_hd [OF assms(1), of "[]" "path @ '')'' @ post"] by simp
  moreover have "index_of ?s '')'' = Some (length pre + 1 + length path)"
    using index_of_hd [of "CHR '')''" "pre @ ''('' @ path" "[]" post] assms(2,3) by simp
  ultimately show ?thesis by (simp add: extractConfigFromMaster_def)
qed

theorem extractConfig_roundtrip_witness:
  "extractConfigFromMaster ''php-fpm: master process (/etc/php-fpm.conf)'' = ''/etc/php-fpm.conf''"
  using extractConfig_roundtrip [of "''php-fpm: master process ''" "''/etc/php-fpm.conf''" "[]"] by simp

lemma ParseAddress_scheme:
  "ParseAddress (''unix://'' @ a) path = Inr (''unix'', a, path)"
  "ParseAddress (''tcp://'' @ a) path = Inr (''tcp'', a, path)"
  using has_prefix_append [of "''unix://''" a] has_prefix_append [of "''tcp://''" a]
    trim_prefix_append [of "''unix://''" a] trim_prefix_append [of "''tcp://''" a]
  by (simp_all add: ParseAddress_def)

lemma parseSocket_address:
  assumes "parseSocket socket \<noteq> []"
  shows "ParseAddress (parseSocket socket) path =
     Inr (if has_prefix socket ''/'' then (''unix'', socket, path)
          else if contains socket '':'' then (''tcp'', socket, path)
          else (''tcp'', ''127.0.0.1:'' @ socket, path))"
proof -
  consider (path) "has_prefix socket ''/''" "parseSocket socket = ''unix://'' @ socket"
    | (tcp) "\<not> has_prefix socket ''/''" "contains socket '':''" "parseSocket socket = ''tcp://'' @ socket"
    | (port) "\<not> has_prefix socket ''/''" "\<not> contains socket '':''"
        "parseSocket socket = ''tcp://'' @ ''127.0.0.1:'' @ socket"
    using assms unfolding parseSocket_def by (auto split: if_splits)
  then show ?thesis
  proof cases
    case path
    then show ?thesis unfolding path(2) ParseAddress_scheme(1) by simp
  next
    case tcp
    then show ?thesis unfolding tcp(3) ParseAddress_scheme(2) by simp
  next
    case port
    then show ?thesis unfolding port(3) ParseAddress_scheme(2) by simp
  qed
qed

text \<open>
  Every listen address discovery can use is one the scraper can dial: a path becomes a Unix
  socket with that path, an address with a colon a TCP address as written, a bare port the same port
  on the loopback address.
\<close>

theorem parseSocket_dialable:
  assumes "parseSocket socket \<noteq> []"
  shows "ParseAddress (parseSocket socket) path =
     Inr (if has_prefix socket ''/'' then (''unix'', socket, path)
          else if contains socket '':'' then (''tcp'', socket, path)
          else (''tcp'', ''127.0.0.1:'' @ socket, path))"
  by (rule parseSocket_address [OF assms])

theorem parseSocket_dialable_witness:
  "ParseAddress (parseSocket ''9000'') ''/status'' = Inr (''tcp'', ''127.0.0.1:9000'', ''/status'')"
proof -
  have "parseSocket ''9000'' \<noteq> []" and no: "has_prefix ''9000'' ''/'' = False" "contains ''9000'' '':'' = False"
    by code_simp+
  from parseSocket_dialable [OF this(1), of "''/status''"] show ?thesis unfolding no by simp
qed

section \<open>Which masters are found, and what is executed for them\<close>

lemma masterIdentity_Some:
  "masterIdentity h p = Some (exe, config) \<longleftrightarrow>
     (\<exists>name cmdline. p_name p = Inr name \<and> fpmNamePattern (base name) \<and> p_cmdline p = Inr cmdline \<and>
        contains cmdline ''master process'' \<and> config = extractConfigFromMaster cmdline \<and> config \<noteq> [] \<and>
        p_exe p = Inr exe \<and> trusted_spec h exe \<and> trusted_spec h config)"
  by (auto simp: masterIdentity_def Let_def trustedPath_None split: sum.splits if_splits)

lemma master_of_Some:
  "master_of h p = Some m \<longleftrightarrow> m_PID m = p_pid p \<and> masterIdentity h p = Some (m_Binary m, m_ConfigPath m)"
  by (auto simp: master_of_def split: option.splits)

text \<open>
  C28. The scan for masters returns exactly the processes whose name and title are those of a
  php-fpm master and whose binary and configuration file both satisfy the trust specification, each
  with its pid, binary and configuration path, and no process is listed for any other reason.
\<close>

theorem DiscoverMasters_exact:
  assumes "h_processes h = Inr procs"
  shows "\<exists>ms. DiscoverMasters h = Inr ms \<and>
     set ms = {m. \<exists>p \<in> set procs. \<exists>name cmdline.
        p_name p = Inr name \<and> fpmNamePattern (base name) \<and> p_cmdline p = Inr cmdline \<and>
        contains cmdline ''master process'' \<and> m_ConfigPath m = extractConfigFromMaster cmdline \<and>
        m_ConfigPath m \<noteq> [] \<and> p_exe p = Inr (m_Binary m) \<and> m_PID m = p_pid p \<and>
        trusted_spec h (m_Binary m) \<and> trusted_spec h (m_ConfigPath m)}"
proof -
  have "set (List.map_filter (master_of h) procs) = {m. \<exists>p \<in> set procs. master_of h p = Some m}"
    by (force simp: List.map_filter_def image_iff)
  with assms show ?thesis
    by (auto simp: DiscoverMasters_def master_of_Some masterIdentity_Some)
qed

lemma ParseConfigContext_execs:
  "set (snd (snd (ParseConfigContext h b c st))) \<subseteq> {(b, tt_args c)}"
  by (auto simp: ParseConfigContext_def Let_def split: if_splits option.splits sum.splits prod.splits)

lemma parse_masters_execs:
  assumes "(b, args) \<in> set (snd (snd (parse_masters h ps st)))"
  shows "\<exists>c. args = tt_args c \<and> trusted_spec h b \<and> trusted_spec h c"
  using assms
proof (induction ps arbitrary: st)
  case (Cons p ps)
  show ?case
  proof (cases "master_of h p")
    case None
    with Cons show ?thesis by simp
  next
    case (Some m)
    obtain r st' ex where r: "ParseConfigContext h (m_Binary m) (m_ConfigPath m) st = (r, st', ex)"
      by (metis prod_cases3)
    then have "set ex \<subseteq> {(m_Binary m, tt_args (m_ConfigPath m))}"
      using ParseConfigContext_execs [of h "m_Binary m" "m_ConfigPath m" st] by simp
    moreover have "(b, args) \<in> set ex \<or> (b, args) \<in> set (snd (snd (parse_masters h ps st')))"
      using Cons.prems Some r by (auto split: prod.splits)
    moreover have "trusted_spec h (m_Binary m)" "trusted_spec h (m_ConfigPath m)"
      using Some by (auto simp: master_of_Some masterIdentity_Some)
    ultimately show ?thesis using Cons.IH by blast
  qed
qed simp

text \<open>
  C11. Everything a discovery scan executes is \<^verbatim>\<open>php-fpm -tt\<close> with a binary and a configuration file
  that both satisfy the trust specification, whatever the process table claims.
\<close>

theorem discoverContext_executes_only_trusted:
  assumes "discoverContext order h st = Inr res" and "(b, args) \<in> set (r_execs res)"
  shows "\<exists>c. args = tt_args c \<and> trusted_spec h b \<and> trusted_spec h c"
proof -
  from assms(1) obtain procs where "h_processes h = Inr procs"
    by (auto simp: discoverContext_def split: sum.splits)
  with assms have "(b, args) \<in> set (snd (snd (parse_masters h procs st)))"
    by (auto simp: discoverContext_def Let_def split: prod.splits)
  then show ?thesis by (rule parse_masters_execs)
qed

section \<open>Every usable pool is reported once\<close>

abbreviation usable_pool :: "string \<times> strmap \<Rightarrow> bool" where
  "usable_pool pool \<equiv> parseSocket (go_index (snd pool) ''listen'') \<noteq> []"

abbreviation has_status :: "strmap \<Rightarrow> string \<times> strmap \<Rightarrow> bool" where
  "has_status global pool \<equiv>
     go_index (snd pool) ''pm.status_path'' \<noteq> [] \<or> go_index global ''pm.status_path'' \<noteq> []"

lemma classify_pool_None: "classify_pool m g pool = None \<longleftrightarrow> \<not> usable_pool pool"
  by (simp add: classify_pool_def Let_def)

lemma classify_pool_cases:
  assumes "usable_pool pool"
  obtains (found) d where "classify_pool m g pool = Some (Inl d)" "has_status g pool" "d_Name d = fst pool"
      "d_PID d = m_PID m" "d_Socket d = parseSocket (go_index (snd pool) ''listen'')" "d_StatusPath d \<noteq> []"
    | (unst) u where "classify_pool m g pool = Some (Inr u)" "\<not> has_status g pool" "u_Name u = fst pool"
      "u_PID u = m_PID m" "u_Socket u = parseSocket (go_index (snd pool) ''listen'')"
proof (cases "has_status g pool")
  case True
  then have "(if go_index (snd pool) ''pm.status_path'' = [] then go_index g ''pm.status_path''
      else go_index (snd pool) ''pm.status_path'') \<noteq> []" by auto
  with assms True have "\<exists>d. classify_pool m g pool = Some (Inl d) \<and> d_Name d = fst pool \<and> d_PID d = m_PID m \<and>
      d_Socket d = parseSocket (go_index (snd pool) ''listen'') \<and> d_StatusPath d \<noteq> []"
    by (simp add: classify_pool_def Let_def)
  with True found show thesis by blast
next
  case False
  with assms have "\<exists>u. classify_pool m g pool = Some (Inr u) \<and> u_Name u = fst pool \<and> u_PID u = m_PID m \<and>
      u_Socket u = parseSocket (go_index (snd pool) ''listen'')"
    by (simp add: classify_pool_def Let_def)
  with False unst show thesis by blast
qed

text \<open>The (pid, pool name) pairs of the two result lists.\<close>

definition found_ids :: "discovered list \<Rightarrow> (int \<times> string) multiset" where
  "found_ids ds = image_mset (\<lambda>d. (d_PID d, d_Name d)) (mset ds)"

definition unstatused_ids :: "unstatused list \<Rightarrow> (int \<times> string) multiset" where
  "unstatused_ids us = image_mset (\<lambda>u. (u_PID u, u_Name u)) (mset us)"

definition pool_ids :: "master \<Rightarrow> (string \<times> strmap) list \<Rightarrow> (int \<times> string) multiset" where
  "pool_ids m pools = image_mset (\<lambda>pool. (m_PID m, fst pool)) (mset pools)"

lemma map_filter_Cons:
  "List.map_filter f (x # xs) = (case f x of None \<Rightarrow> List.map_filter f xs | Some y \<Rightarrow> y # List.map_filter f xs)"
  by (simp add: List.map_filter_def split: option.splits)

lemma classified_ids:
  "found_ids (List.map_filter (\<lambda>r. case r of Inl d \<Rightarrow> Some d | Inr _ \<Rightarrow> None)
       (List.map_filter (classify_pool m g) pools)) =
     pool_ids m (filter (\<lambda>p. usable_pool p \<and> has_status g p) pools) \<and>
   unstatused_ids (List.map_filter (\<lambda>r. case r of Inl _ \<Rightarrow> None | Inr u \<Rightarrow> Some u)
       (List.map_filter (classify_pool m g) pools)) =
     pool_ids m (filter (\<lambda>p. usable_pool p \<and> \<not> has_status g p) pools)"
proof (induction pools)
  case Nil
  show ?case by (simp add: List.map_filter_def found_ids_def unstatused_ids_def pool_ids_def)
next
  case (Cons p ps)
  show ?case
  proof (cases "usable_pool p")
    case False
    with classify_pool_None [of m g p] Cons show ?thesis by (simp add: map_filter_Cons)
  next
    case True
    from True show ?thesis
      by (cases rule: classify_pool_cases [of p m g])
        (use True Cons in \<open>simp_all add: map_filter_Cons found_ids_def unstatused_ids_def pool_ids_def\<close>)
  qed
qed

lemma pools_of_ids:
  assumes "mset (order (ec_Pools cfg)) = mset (ec_Pools cfg)"
  shows "found_ids (fst (pools_of order m cfg)) =
           pool_ids m (filter (\<lambda>p. usable_pool p \<and> has_status (ec_Global cfg) p) (ec_Pools cfg))"
    and "unstatused_ids (snd (pools_of order m cfg)) =
           pool_ids m (filter (\<lambda>p. usable_pool p \<and> \<not> has_status (ec_Global cfg) p) (ec_Pools cfg))"
  using assms classified_ids [of m "ec_Global cfg" "order (ec_Pools cfg)"]
  by (simp_all add: pools_of_def Let_def pool_ids_def)

lemma ids_append [simp]:
  "found_ids (xs @ ys) = found_ids xs + found_ids ys" "found_ids [] = {#}"
  "unstatused_ids (us @ vs) = unstatused_ids us + unstatused_ids vs" "unstatused_ids [] = {#}"
  by (simp_all add: found_ids_def unstatused_ids_def)

text \<open>
  C10. Whatever order Go ranges over the pools in, every pool of every parsed master that has a usable
  listen address is reported exactly once: in the results when it or the global section names a
  status path, and among the pools without a status page otherwise. Nothing else is reported.
\<close>

theorem discoverContext_partition:
  assumes "\<And>pools. mset (order pools) = mset pools"
    and "h_processes h = Inr procs" and "parse_masters h procs st = (parsed, st', ex)"
  shows "\<exists>res. discoverContext order h st = Inr res \<and>
     found_ids (r_found res) =
       (\<Sum>(m, cfg)\<leftarrow>parsed. pool_ids m (filter (\<lambda>p. usable_pool p \<and> has_status (ec_Global cfg) p) (ec_Pools cfg))) \<and>
     unstatused_ids (r_unstatused res) =
       (\<Sum>(m, cfg)\<leftarrow>parsed. pool_ids m (filter (\<lambda>p. usable_pool p \<and> \<not> has_status (ec_Global cfg) p) (ec_Pools cfg)))"
proof -
  have "found_ids (concat (map (\<lambda>mc. fst (pools_of order (fst mc) (snd mc))) parsed)) =
      (\<Sum>(m, cfg)\<leftarrow>parsed. pool_ids m (filter (\<lambda>p. usable_pool p \<and> has_status (ec_Global cfg) p) (ec_Pools cfg)))"
    by (induction parsed) (auto simp: pools_of_ids assms(1))
  moreover have "unstatused_ids (concat (map (\<lambda>mc. snd (pools_of order (fst mc) (snd mc))) parsed)) =
      (\<Sum>(m, cfg)\<leftarrow>parsed. pool_ids m (filter (\<lambda>p. usable_pool p \<and> \<not> has_status (ec_Global cfg) p) (ec_Pools cfg)))"
    by (induction parsed) (auto simp: pools_of_ids assms(1))
  ultimately show ?thesis
    using assms(2,3) by (simp add: discoverContext_def Let_def case_prod_unfold o_def)
qed

section \<open>A host with one master and two pools\<close>

definition demo_master :: proc_handle where
  "demo_master =
     \<lparr>p_pid = 7, p_name = Inr ''php-fpm'', p_cmdline = Inr ''php-fpm: master process (/etc/f.conf)'',
      p_exe = Inr ''/usr/php-fpm'', p_ppid = Inr 1, p_memory = Inr (Some 4096),
      p_create_time = Inr 500\<rparr>"

definition demo_lstat :: "string \<Rightarrow> os_error + file_info" where
  "demo_lstat p =
     (if p = ''/'' \<or> p = ''/usr'' \<or> p = ''/etc'' then Inr \<lparr>fi_mode = 0x800001ED, fi_uid = Some 0\<rparr>
      else if p = ''/usr/php-fpm'' \<or> p = ''/etc/f.conf'' then Inr \<lparr>fi_mode = 0x000001A4, fi_uid = Some 0\<rparr>
      else Inl ErrNotExist)"

definition demo_report :: string where
  "demo_report = unlines
     [''[www]'', ''listen = /w.sock'', ''pm.status_path = /status'', ''pm.max_children = 5'', ''[api]'', ''listen = 9000'']"

definition demo_host :: host where
  "demo_host =
     \<lparr>h_uid = 0, h_lstat = demo_lstat, h_processes = Inr [demo_master],
      h_new_process = (\<lambda>pid. if pid = 7 then Inr demo_master else Inl ErrNotExist),
      h_read_file = (\<lambda>_. Inl ErrNotExist), h_signal = (\<lambda>_ _. None),
      h_exec = (\<lambda>_ _. \<lparr>x_writes = [demo_report], x_exit = None\<rparr>), h_ctx_err = None, h_now = 0\<rparr>"

definition demo_config :: effective_config where
  "demo_config =
     \<lparr>ec_Global = [],
      ec_Pools = [(''www'', [(''listen'', ''/w.sock''), (''pm.status_path'', ''/status''), (''pm.max_children'', ''5'')]),
                  (''api'', [(''listen'', ''9000'')])]\<rparr>"

lemma demo_master_of:
  "master_of demo_host demo_master = Some \<lparr>m_PID = 7, m_Binary = ''/usr/php-fpm'', m_ConfigPath = ''/etc/f.conf''\<rparr>"
  by code_simp

lemma demo_parse:
  "parse_masters demo_host [demo_master] empty_cache =
     ([(\<lparr>m_PID = 7, m_Binary = ''/usr/php-fpm'', m_ConfigPath = ''/etc/f.conf''\<rparr>, demo_config)],
      \<lparr>cc_cache = [(''/usr/php-fpm::/etc/f.conf'', demo_config)], cc_epoch = 0\<rparr>,
      [(''/usr/php-fpm'', tt_args ''/etc/f.conf'')])"
  by code_simp

theorem DiscoverMasters_exact_witness:
  "\<exists>ms. DiscoverMasters demo_host = Inr ms \<and>
     \<lparr>m_PID = 7, m_Binary = ''/usr/php-fpm'', m_ConfigPath = ''/etc/f.conf''\<rparr> \<in> set ms"
proof -
  let ?m = "\<lparr>m_PID = 7, m_Binary = ''/usr/php-fpm'', m_ConfigPath = ''/etc/f.conf''\<rparr>"
  have procs: "h_processes demo_host = Inr [demo_master]" by (simp add: demo_host_def)
  obtain name cmdline where "p_name demo_master = Inr name \<and> fpmNamePattern (base name) \<and>
        p_cmdline demo_master = Inr cmdline \<and> contains cmdline ''master process'' \<and>
        m_ConfigPath ?m = extractConfigFromMaster cmdline \<and> m_ConfigPath ?m \<noteq> [] \<and>
        p_exe demo_master = Inr (m_Binary ?m) \<and> m_PID ?m = p_pid demo_master \<and>
        trusted_spec demo_host (m_Binary ?m) \<and> trusted_spec demo_host (m_ConfigPath ?m)"
    using demo_master_of by (auto simp: master_of_Some masterIdentity_Some)
  with DiscoverMasters_exact [OF procs] show ?thesis by fastforce
qed

theorem discoverContext_executes_only_trusted_witness:
  "trusted_spec demo_host ''/usr/php-fpm'' \<and>
   (case discoverContext id demo_host empty_cache of Inl _ \<Rightarrow> False
    | Inr res \<Rightarrow> r_execs res = [(''/usr/php-fpm'', tt_args ''/etc/f.conf'')])"
proof -
  obtain res where res: "discoverContext id demo_host empty_cache = Inr res"
      and ex: "r_execs res = [(''/usr/php-fpm'', tt_args ''/etc/f.conf'')]"
    using demo_parse by (simp add: discoverContext_def demo_host_def Let_def)
  with discoverContext_executes_only_trusted [OF res, of "''/usr/php-fpm''" "tt_args ''/etc/f.conf''"]
  show ?thesis by auto
qed

theorem discoverContext_partition_witness:
  "\<exists>res. discoverContext id demo_host empty_cache = Inr res \<and>
     found_ids (r_found res) = {#(7, ''www'')#} \<and> unstatused_ids (r_unstatused res) = {#(7, ''api'')#}"
proof -
  have procs: "h_processes demo_host = Inr [demo_master]" by (simp add: demo_host_def)
  have names: "map fst (filter (\<lambda>p. usable_pool p \<and> has_status (ec_Global demo_config) p) (ec_Pools demo_config)) = [''www'']"
    "map fst (filter (\<lambda>p. usable_pool p \<and> \<not> has_status (ec_Global demo_config) p) (ec_Pools demo_config)) = [''api'']"
    by code_simp+
  have ids: "pool_ids m ps = mset (map (Pair (m_PID m)) (map fst ps))" for m ps
    by (simp add: pool_ids_def o_def flip: mset_map)
  from discoverContext_partition [OF _ procs demo_parse, of id] show ?thesis
    unfolding ids list.map sum_list.Cons sum_list.Nil prod.case names by simp
qed

end
