(* ===== verification/Process_State.thy ===== *)
theory Process_State
  imports Discover
begin

text \<open>
  What the program asks about a single process while it watches a reload: when the process started
  (start_linux.go, start_other.go), whether it is a zombie (zombie_linux.go, zombie_other.go), whether
  it is alive and whether it is still the same one (control.go). The build chooses one of two readings
  for the first two; \<open>goos\<close> is that choice. The lemmas say that the Linux readings find their field
  in every \<^verbatim>\<open>/proc/<pid>/stat\<close>, whatever the program is called.
\<close>

section \<open>Operations\<close>

datatype goos = Linux | NonLinux

definition proc_file :: "int \<Rightarrow> string \<Rightarrow> string" where
  "proc_file pid name = ''/proc/'' @ itoa pid @ ''/'' @ name"

definition startTimeOffset :: nat where
  "startTimeOffset = 19"

text \<open>The start time in a \<^verbatim>\<open>stat\<close> line, from the last closing parenthesis on.\<close>

definition stat_start_time :: "string \<Rightarrow> uint64" where
  "stat_start_time data =
     (case last_index_byte data CHR '')'' of
        None \<Rightarrow> 0
      | Some i \<Rightarrow>
          if length data \<le> i + 2 then 0
          else let fields = go_fields (drop (i + 2) data) in
            if length fields \<le> startTimeOffset then 0
            else (case parse_uint64 (fields ! startTimeOffset) of
                    (ticks, None) \<Rightarrow> word_of_int ticks
                  | (_, Some _) \<Rightarrow> 0))"

definition processStartedAt_linux :: "host \<Rightarrow> int \<Rightarrow> uint64" where
  "processStartedAt_linux h pid =
     (case h_read_file h (proc_file pid ''stat'') of Inl _ \<Rightarrow> 0 | Inr data \<Rightarrow> stat_start_time data)"

definition processStartedAt_other :: "host \<Rightarrow> int \<Rightarrow> uint64" where
  "processStartedAt_other h pid =
     (case h_new_process h (go_int32 pid) of
        Inl _ \<Rightarrow> 0
      | Inr p \<Rightarrow>
          (case p_create_time p of
             Inl _ \<Rightarrow> 0
           | Inr created \<Rightarrow> if created \<le> 0 then 0 else go_uint64 created))"

definition stat_zombie :: "string \<Rightarrow> bool" where
  "stat_zombie data =
     (case last_index_byte data CHR '')'' of
        None \<Rightarrow> False
      | Some i \<Rightarrow> if length data \<le> i + 2 then False else data ! (i + 2) = CHR ''Z'')"

definition isZombie_linux :: "host \<Rightarrow> int \<Rightarrow> bool" where
  "isZombie_linux h pid =
     (case h_read_file h (proc_file pid ''stat'') of Inl _ \<Rightarrow> False | Inr data \<Rightarrow> stat_zombie data)"

definition isZombie_other :: "host \<Rightarrow> int \<Rightarrow> bool" where
  "isZombie_other h pid = False"

fun processStartedAt :: "goos \<Rightarrow> host \<Rightarrow> int \<Rightarrow> uint64" where
  "processStartedAt Linux = processStartedAt_linux"
| "processStartedAt NonLinux = processStartedAt_other"

fun isZombie :: "goos \<Rightarrow> host \<Rightarrow> int \<Rightarrow> bool" where
  "isZombie Linux = isZombie_linux"
| "isZombie NonLinux = isZombie_other"

definition sameProcess :: "goos \<Rightarrow> host \<Rightarrow> int \<Rightarrow> uint64 \<Rightarrow> bool" where
  "sameProcess os h pid started \<longleftrightarrow> (if started = 0 then True else processStartedAt os h pid = started)"

text \<open>\<^verbatim>\<open>os.FindProcess\<close> never fails on the systems the program is built for; signal 0 is the probe.\<close>

definition processAlive :: "goos \<Rightarrow> host \<Rightarrow> int \<Rightarrow> bool" where
  "processAlive os h pid = (if h_signal h pid 0 \<noteq> None then False else \<not> isZombie os h pid)"

section \<open>The stat line\<close>

text \<open>The line the kernel writes: the pid, the program's name in parentheses, and the remaining
  fields separated by single spaces.\<close>

definition join_fields :: "string list \<Rightarrow> string" where
  "join_fields fs = concat (map (\<lambda>f. CHR '' '' # f) fs)"

definition stat_line :: "int \<Rightarrow> string \<Rightarrow> string list \<Rightarrow> string" where
  "stat_line pid comm fs = itoa pid @ '' ('' @ comm @ '')'' @ join_fields fs @ [newline]"

abbreviation stat_field :: "string \<Rightarrow> bool" where
  "stat_field f \<equiv> f \<noteq> [] \<and> (\<forall>c \<in> set f. visible c \<and> c \<noteq> CHR '')'')"

lemma last_index_byte_append:
  assumes "c \<notin> set b"
  shows "last_index_byte (a @ c # b) c = Some (length a)"
proof -
  have "takeWhile (\<lambda>x. x \<noteq> c) (rev (a @ c # b)) = rev b"
    using assms takeWhile_append_sep [of c "rev b" "rev a"] by simp
  then show ?thesis by (simp add: last_index_byte_def)
qed

lemma fields_from_join:
  assumes "\<forall>f \<in> set fs. stat_field f" and "cur \<noteq> []"
  shows "fields_from (join_fields fs @ [newline]) cur = rev cur # fs"
  using assms
proof (induction fs arbitrary: cur)
  case Nil
  have "space_width [newline] = 1" by code_simp
  with Nil show ?case by (simp add: join_fields_def)
next
  case (Cons f fs)
  have "fields_from (join_fields (f # fs) @ [newline]) cur =
      rev cur # fields_from (f @ join_fields fs @ [newline]) []"
    using Cons.prems by (simp add: join_fields_def space_width_blank blank_def)
  also have "\<dots> = rev cur # fields_from (join_fields fs @ [newline]) (rev f)"
    using Cons.prems by (simp add: fields_from_visible)
  also have "\<dots> = rev cur # f # fs" using Cons.IH [of "rev f"] Cons.prems by simp
  finally show ?case .
qed

lemma go_fields_join:
  assumes "\<forall>f \<in> set (f # fs). stat_field f"
  shows "go_fields (f @ join_fields fs @ [newline]) = f # fs"
  using assms fields_from_join [of fs "rev f"] by (simp add: go_fields_def fields_from_visible)

lemma join_fields_no_paren:
  assumes "\<forall>f \<in> set fs. stat_field f"
  shows "CHR '')'' \<notin> set (join_fields fs @ [newline])"
  using assms by (auto simp: join_fields_def)

lemma stat_line_paren:
  assumes "\<forall>f \<in> set fs. stat_field f"
  shows "last_index_byte (stat_line pid comm fs) CHR '')'' = Some (length (itoa pid) + 2 + length comm)"
  using last_index_byte_append [OF join_fields_no_paren [OF assms], of "itoa pid @ '' ('' @ comm"]
  by (simp add: stat_line_def)

lemma stat_line_drop:
  "drop (length (itoa pid) + 2 + length comm + 2) (stat_line pid comm (f # fs)) = f @ join_fields fs @ [newline]"
proof -
  have "stat_line pid comm (f # fs) = (itoa pid @ '' ('' @ comm @ '') '') @ f @ join_fields fs @ [newline]"
    by (simp add: stat_line_def join_fields_def)
  moreover have "length (itoa pid) + 2 + length comm + 2 = length (itoa pid @ '' ('' @ comm @ '') '')"
    by simp
  ultimately show ?thesis by (simp only: drop_length_append)
qed

lemma stat_line_length: "length (itoa pid) + 2 + length comm + 2 < length (stat_line pid comm (f # fs))"
  by (simp add: stat_line_def join_fields_def)

lemma parse_uint64_digits:
  assumes "n < 2 ^ 64"
  shows "parse_uint64 (digits_of n) = (int n, None)"
proof -
  have "int n < 2 ^ 64" using assms by (metis of_nat_less_iff of_nat_numeral of_nat_power)
  with digits_of_hd [of n] show ?thesis
    by (simp add: parse_uint64_def digits_val_digits_of)
qed

lemma stat_start_time_line:
  assumes "\<forall>f \<in> set fs. stat_field f" and "startTimeOffset < length fs"
    and "fs ! startTimeOffset = digits_of ticks" and "ticks < 2 ^ 64"
  shows "stat_start_time (stat_line pid comm fs) = word_of_nat ticks"
proof -
  from assms(2) obtain f rest where fs: "fs = f # rest" by (cases fs) auto
  have "go_fields (f @ join_fields rest @ [newline]) = fs"
    using go_fields_join [of f rest] assms(1) fs by simp
  with assms show ?thesis
    using stat_line_paren [OF assms(1), of pid comm] stat_line_length [of pid comm f rest]
      stat_line_drop [of pid comm f rest]
    by (simp add: stat_start_time_def fs Let_def parse_uint64_digits)
qed

lemma stat_start_time_short:
  assumes "\<forall>f \<in> set (f # fs). stat_field f" and "length (f # fs) \<le> startTimeOffset"
  shows "stat_start_time (stat_line pid comm (f # fs)) = 0"
  using assms stat_line_paren [OF assms(1), of pid comm] stat_line_length [of pid comm f fs]
    stat_line_drop [of pid comm f fs] go_fields_join [of f fs]
  by (simp add: stat_start_time_def Let_def)

lemma stat_zombie_line:
  assumes "\<forall>f \<in> set (state # fs). stat_field f"
  shows "stat_zombie (stat_line pid comm (state # fs)) \<longleftrightarrow> hd state = CHR ''Z''"
proof -
  let ?i = "length (itoa pid) + 2 + length comm"
  have "stat_line pid comm (state # fs) ! (?i + 2) = hd (drop (?i + 2) (stat_line pid comm (state # fs)))"
    by (rule hd_drop_conv_nth [symmetric]) (rule stat_line_length)
  also have "\<dots> = hd state"
    using assms unfolding stat_line_drop by simp
  finally show ?thesis
    using stat_line_paren [OF assms, of pid comm] stat_line_length [of pid comm state fs]
    by (simp add: stat_zombie_def)
qed

text \<open>
  C34. From the \<^verbatim>\<open>stat\<close> line of any process, whatever its program is called (spaces and parentheses
  included), the start time read is field 22, and the process counts as a zombie exactly when its
  state, field 3, is \<^verbatim>\<open>Z\<close>. The fields after the program's name start with field 3, so field 22 is the one
  with index 19 among them; a line that ends before it gives no start time.
\<close>

theorem proc_stat_readings:
  assumes "h_read_file h (proc_file pid ''stat'') = Inr (stat_line pid comm (state # fs))"
    and "\<forall>f \<in> set (state # fs). stat_field f"
  shows "(length (state # fs) \<le> 19 \<longrightarrow> processStartedAt Linux h pid = 0) \<and>
    (\<forall>ticks. 19 < length (state # fs) \<and> (state # fs) ! 19 = digits_of ticks \<and> ticks < 2 ^ 64 \<longrightarrow>
       processStartedAt Linux h pid = word_of_nat ticks) \<and>
    (isZombie Linux h pid \<longleftrightarrow> hd state = CHR ''Z'')"
proof (intro conjI allI impI)
  show "processStartedAt Linux h pid = word_of_nat ticks"
    if "19 < length (state # fs) \<and> (state # fs) ! 19 = digits_of ticks \<and> ticks < 2 ^ 64" for ticks
    using assms(1) that stat_start_time_line [OF assms(2), unfolded startTimeOffset_def, of ticks pid comm]
    by (simp add: processStartedAt_linux_def)
  show "processStartedAt Linux h pid = 0" if "length (state # fs) \<le> 19"
    using assms(1) that stat_start_time_short [OF assms(2), of pid comm]
    by (simp add: processStartedAt_linux_def startTimeOffset_def)
  show "isZombie Linux h pid \<longleftrightarrow> hd state = CHR ''Z''"
    using assms(1) stat_zombie_line [OF assms(2), of pid comm] by (simp add: isZombie_linux_def)
qed

definition stat_host :: host where
  "stat_host = demo_host\<lparr>h_read_file := (\<lambda>p.
     if p = ''/proc/7/stat'' then Inr ''7 (a) Z 1 (b) S 1 2 3 4 5 6 7 8 9 10 11 12 13 14 15 16 17 18 771 20\<newline>'' else Inl ErrNotExist)\<rparr>"

theorem proc_stat_readings_witness:
  "processStartedAt Linux stat_host 7 = 771 \<and> \<not> isZombie Linux stat_host 7"
proof -
  let ?fs = "''1 2 3 4 5 6 7 8 9 10 11 12 13 14 15 16 17 18 771 20''"
  have line: "h_read_file stat_host (proc_file 7 ''stat'') = Inr (stat_line 7 ''a) Z 1 (b'' (''S'' # go_fields ?fs))"
    and fields: "\<forall>f \<in> set (''S'' # go_fields ?fs). stat_field f"
    and "19 < length (''S'' # go_fields ?fs)" and "(''S'' # go_fields ?fs) ! 19 = digits_of 771"
    and state: "hd ''S'' \<noteq> CHR ''Z''"
    by code_simp+
  moreover have "(771 :: nat) < 2 ^ 64" by simp
  ultimately have "processStartedAt Linux stat_host 7 = word_of_nat 771" and "\<not> isZombie Linux stat_host 7"
    using proc_stat_readings [OF line fields] by blast+
  then show ?thesis by simp
qed

section \<open>The identity anchor\<close>

text \<open>
  What the watcher relies on of a platform's start-time reading: a process that is not there has no
  start time. The anchor then names a process and not a slot of the process table: as long as the
  anchor is known, a pid that has gone is never taken for the process it was.
\<close>

locale start_clock =
  fixes started_at :: "host \<Rightarrow> int \<Rightarrow> uint64" and gone :: "host \<Rightarrow> int \<Rightarrow> bool"
  assumes gone_zero: "gone h pid \<Longrightarrow> started_at h pid = 0"
begin

lemma same_not_gone: "anchor \<noteq> 0 \<Longrightarrow> started_at h pid = anchor \<Longrightarrow> \<not> gone h pid"
  using gone_zero by auto

end

definition stat_unreadable :: "host \<Rightarrow> int \<Rightarrow> bool" where
  "stat_unreadable h pid = (case h_read_file h (proc_file pid ''stat'') of Inl _ \<Rightarrow> True | Inr _ \<Rightarrow> False)"

definition no_process :: "host \<Rightarrow> int \<Rightarrow> bool" where
  "no_process h pid = (case h_new_process h (go_int32 pid) of Inl _ \<Rightarrow> True | Inr _ \<Rightarrow> False)"

interpretation linux_clock: start_clock processStartedAt_linux stat_unreadable
  by unfold_locales (simp add: processStartedAt_linux_def stat_unreadable_def split: sum.splits)

interpretation other_clock: start_clock processStartedAt_other no_process
  by unfold_locales (simp add: processStartedAt_other_def no_process_def split: sum.splits)

fun process_gone :: "goos \<Rightarrow> host \<Rightarrow> int \<Rightarrow> bool" where
  "process_gone Linux = stat_unreadable"
| "process_gone NonLinux = no_process"

lemma sameProcess_not_gone: "anchor \<noteq> 0 \<Longrightarrow> sameProcess os h pid anchor \<Longrightarrow> \<not> process_gone os h pid"
  using linux_clock.same_not_gone other_clock.same_not_gone
  by (cases os) (simp_all add: sameProcess_def)

text \<open>
  The anchor taken from one observation recognises exactly the process it was taken from: a later
  observation of the same pid is accepted when the start time could not be read the first time, or
  when it is readable and unchanged; a process that has gone and a pid that another process has taken
  over are refused on both platforms.
\<close>

theorem sameProcess_anchor:
  "sameProcess os h' pid (processStartedAt os h pid) \<longleftrightarrow>
     processStartedAt os h pid = 0 \<or>
     processStartedAt os h' pid = processStartedAt os h pid \<and> \<not> process_gone os h' pid"
  using sameProcess_not_gone [of "processStartedAt os h pid" os h' pid]
  by (auto simp: sameProcess_def)

end
