(* ===== verification/Control.thy ===== *)
theory Control
  imports Process_State
begin

text \<open>
  \<^verbatim>\<open>control.go\<close>: checking a configuration, recognising a master before it is signalled, reloading it,
  and watching the reload until a master has survived its settle window. The watching loop looks at
  the host many times, and the host may change between any two of these looks: a \<open>round\<close> holds the
  host as each look of one pass through the loop finds it, and a run is a sequence of rounds. One call
  of \<^verbatim>\<open>verifyMaster\<close>, \<^verbatim>\<open>MasterPID\<close>, \<^verbatim>\<open>processAlive\<close>, \<^verbatim>\<open>processStartedAt\<close> or \<^verbatim>\<open>DiscoverMasters\<close> is one look. The loop
  may run for ever, so it is a partial function; \<open>None\<close> is not returning.
\<close>

section \<open>Validate\<close>

datatype validate_error =
    NoBinary
  | NotAbsolute string
  | NotFinished string
  | Rejected bounded_error string

definition validate_args :: "string \<Rightarrow> string list" where
  "validate_args configPath = [''-t''] @ (if configPath \<noteq> [] then [''--fpm-config'', configPath] else [])"

definition Validate :: "host \<Rightarrow> string \<Rightarrow> string \<Rightarrow> validate_error option \<times> exec_call list" where
  "Validate h binary configPath =
     (if binary = [] then (Some NoBinary, [])
      else if \<not> is_abs binary then (Some (NotAbsolute binary), [])
      else
        case runBounded h binary (validate_args configPath) of ((output, err), ex) \<Rightarrow>
          case err of
            None \<Rightarrow> (None, ex)
          | Some e \<Rightarrow>
              (case h_ctx_err h of
                 Some ctxErr \<Rightarrow> (Some (NotFinished ctxErr), ex)
               | None \<Rightarrow> (Some (Rejected e (trim_space output)), ex)))"

section \<open>Identity\<close>

text \<open>The ways in which a pid is found not to be the master; all of them wrap \<^verbatim>\<open>ErrNotAMaster\<close>.\<close>

datatype verify_error =
    BadPid int
  | NoSuchProcess int os_error
  | NotTrustedMaster int
  | OtherMaster int string string

definition verifyMaster :: "host \<Rightarrow> int \<Rightarrow> string \<Rightarrow> verify_error option" where
  "verifyMaster h pid configPath =
     (if pid \<le> 0 then Some (BadPid pid)
      else case h_new_process h (go_int32 pid) of
        Inl e \<Rightarrow> Some (NoSuchProcess pid e)
      | Inr p \<Rightarrow>
          (case masterIdentity h p of
             None \<Rightarrow> Some (NotTrustedMaster pid)
           | Some (_, found) \<Rightarrow>
               if configPath = [] then None
               else if clean found \<noteq> clean configPath then Some (OtherMaster pid found configPath)
               else None))"

definition VerifyMaster :: "host \<Rightarrow> int \<Rightarrow> verify_error option" where
  "VerifyMaster h pid = verifyMaster h pid []"

datatype pidfile_error =
    CannotReadPidFile os_error
  | NoPidInFile num_error
  | PidFileNames int verify_error

definition MasterPID :: "host \<Rightarrow> string \<Rightarrow> pidfile_error + int" where
  "MasterPID h pidFile =
     (case h_read_file h pidFile of
        Inl e \<Rightarrow> Inl (CannotReadPidFile e)
      | Inr data \<Rightarrow>
          (case atoi (trim_space data) of
             (_, Some e) \<Rightarrow> Inl (NoPidInFile e)
           | (pid, None) \<Rightarrow>
               (case VerifyMaster h pid of
                  Some e \<Rightarrow> Inl (PidFileNames pid e)
                | None \<Rightarrow> Inr pid)))"

section \<open>Reload\<close>

text \<open>Linux's number for the signal.\<close>

definition SIGUSR2 :: nat where
  "SIGUSR2 = 12"

datatype reload_error =
    NotOurs verify_error
  | SignalFailed int os_error
  | ContextDone string
  | DidNotSurvive int verify_error
  | NoSuccessor int

text \<open>The check sees one host and the signal the next one. The second component lists the signals
  sent.\<close>

definition reload :: "host \<Rightarrow> host \<Rightarrow> int \<Rightarrow> string \<Rightarrow> reload_error option \<times> (int \<times> nat) list" where
  "reload h h' pid configPath =
     (case verifyMaster h pid configPath of
        Some e \<Rightarrow> (Some (NotOurs e), [])
      | None \<Rightarrow>
          (case h_signal h' pid SIGUSR2 of
             Some e \<Rightarrow> (Some (SignalFailed pid e), [(pid, SIGUSR2)])
           | None \<Rightarrow> (None, [(pid, SIGUSR2)])))"

definition Reload :: "host \<Rightarrow> host \<Rightarrow> int \<Rightarrow> reload_error option \<times> (int \<times> nat) list" where
  "Reload h h' pid = reload h h' pid []"

definition ReloadMaster :: "host \<Rightarrow> host \<Rightarrow> int \<Rightarrow> string \<Rightarrow> reload_error option \<times> (int \<times> nat) list" where
  "ReloadMaster h h' pid configPath = reload h h' pid configPath"

record reload_target =
  rt_PID :: int
  rt_PIDFile :: string
  rt_ConfigPath :: string

text \<open>The looks of one pass through the loop, in the order in which the program makes them. A pass
  that does not make one of them ignores the field.\<close>

record round =
  rd_ctx :: host
  rd_alive :: host
  rd_same :: host
  rd_now :: host
  rd_verify :: host
  rd_pidfile :: host
  rd_pidverify :: host
  rd_scan :: host
  rd_started :: host
  rd_late :: host
  rd_select :: host

definition successor :: "round \<Rightarrow> reload_target \<Rightarrow> int option" where
  "successor r tgt =
     (let byFile =
        (if rt_PIDFile tgt = [] then None
         else case MasterPID (rd_pidfile r) (rt_PIDFile tgt) of
           Inl _ \<Rightarrow> None
         | Inr pid \<Rightarrow>
             if pid \<noteq> rt_PID tgt \<and> verifyMaster (rd_pidverify r) pid (rt_ConfigPath tgt) = None
             then Some pid else None)
      in case byFile of
           Some pid \<Rightarrow> Some pid
         | None \<Rightarrow>
             if rt_ConfigPath tgt = [] then None
             else (case DiscoverMasters (rd_scan r) of
                Inl _ \<Rightarrow> None
              | Inr found \<Rightarrow>
                  map_option m_PID
                    (find (\<lambda>m. clean (m_ConfigPath m) = clean (rt_ConfigPath tgt) \<and> 0 < m_PID m \<and>
                               m_PID m \<noteq> rt_PID tgt) found)))"

text \<open>One pass through the loop: an answer, or the target and the anchor to go on with.\<close>

datatype watch = Answer "reload_error + int" | Watch reload_target uint64

definition watch_pause :: "round \<Rightarrow> reload_target \<Rightarrow> uint64 \<Rightarrow> watch" where
  "watch_pause r tgt started =
     (case h_ctx_err (rd_select r) of
        Some e \<Rightarrow> Answer (Inl (ContextDone e))
      | None \<Rightarrow> Watch tgt started)"

definition watch_round :: "goos \<Rightarrow> round \<Rightarrow> int \<Rightarrow> reload_target \<Rightarrow> uint64 \<Rightarrow> watch" where
  "watch_round os r deadline tgt started =
     (case h_ctx_err (rd_ctx r) of
        Some e \<Rightarrow> Answer (Inl (ContextDone e))
      | None \<Rightarrow>
          if processAlive os (rd_alive r) (rt_PID tgt) \<and> sameProcess os (rd_same r) (rt_PID tgt) started then
            (if deadline < h_now (rd_now r) then
               (case verifyMaster (rd_verify r) (rt_PID tgt) (rt_ConfigPath tgt) of
                  Some e \<Rightarrow> Answer (Inl (DidNotSurvive (rt_PID tgt) e))
                | None \<Rightarrow> Answer (Inr (rt_PID tgt)))
             else watch_pause r tgt started)
          else
            (case successor r tgt of
               Some pid \<Rightarrow> Watch (tgt\<lparr>rt_PID := pid\<rparr>) (processStartedAt os (rd_started r) pid)
             | None \<Rightarrow>
                 if deadline < h_now (rd_late r) then Answer (Inl (NoSuccessor (rt_PID tgt)))
                 else watch_pause r tgt started))"

partial_function (option) watch_loop ::
  "goos \<Rightarrow> (nat \<Rightarrow> round) \<Rightarrow> int \<Rightarrow> nat \<Rightarrow> reload_target \<Rightarrow> uint64 \<Rightarrow> (reload_error + int) option" where
  "watch_loop os w deadline i tgt started =
     (case watch_round os (w i) deadline tgt started of
        Answer a \<Rightarrow> Some a
      | Watch tgt' started' \<Rightarrow> watch_loop os w deadline (i + 1) tgt' started')"

text \<open>The looks before the loop: the check, the signal, the first start time, the clock.\<close>

record start_looks =
  sl_verify :: host
  sl_signal :: host
  sl_started :: host
  sl_now :: host

definition ReloadAndWait ::
  "goos \<Rightarrow> start_looks \<Rightarrow> (nat \<Rightarrow> round) \<Rightarrow> reload_target \<Rightarrow> int
     \<Rightarrow> (reload_error + int) option \<times> (int \<times> nat) list" where
  "ReloadAndWait os s w tgt settle =
     (case ReloadMaster (sl_verify s) (sl_signal s) (rt_PID tgt) (rt_ConfigPath tgt) of
        (Some e, sent) \<Rightarrow> (Some (Inl e), sent)
      | (None, sent) \<Rightarrow>
          (watch_loop os w (h_now (sl_now s) + settle) 0 tgt (processStartedAt os (sl_started s) (rt_PID tgt)),
           sent))"

section \<open>Who is a master\<close>

text \<open>
  The vocabulary of the check: the number, taken as the 32 bits under which a process is looked up, names
  a process that is called like php-fpm, whose title is
  that of a master, whose binary and configuration file are trusted, and, when a configuration is
  asked for, whose configuration is that file.
\<close>

definition serves :: "host \<Rightarrow> int \<Rightarrow> string \<Rightarrow> bool" where
  "serves h pid configPath \<longleftrightarrow>
     0 < pid \<and>
     (\<exists>p name title exe. h_new_process h (go_int32 pid) = Inr p \<and> p_name p = Inr name \<and>
        fpmNamePattern (base name) \<and> p_cmdline p = Inr title \<and> contains title ''master process'' \<and>
        extractConfigFromMaster title \<noteq> [] \<and> p_exe p = Inr exe \<and> trusted_spec h exe \<and>
        trusted_spec h (extractConfigFromMaster title) \<and>
        (configPath = [] \<or> clean (extractConfigFromMaster title) = clean configPath))"

lemma verifyMaster_None: "verifyMaster h pid configPath = None \<longleftrightarrow> serves h pid configPath"
proof -
  have "verifyMaster h pid configPath = None \<longleftrightarrow>
      0 < pid \<and> (\<exists>p exe found. h_new_process h (go_int32 pid) = Inr p \<and> masterIdentity h p = Some (exe, found) \<and>
        (configPath = [] \<or> clean found = clean configPath))"
    by (auto simp: verifyMaster_def split: sum.splits option.splits)
  also have "\<dots> \<longleftrightarrow> serves h pid configPath"
    unfolding serves_def masterIdentity_Some by blast
  finally show ?thesis .
qed

lemma DiscoverMasters_member:
  "DiscoverMasters h = Inr ms \<Longrightarrow> m \<in> set ms \<longleftrightarrow>
     (\<exists>procs p. h_processes h = Inr procs \<and> p \<in> set procs \<and> master_of h p = Some m)"
  by (force simp: DiscoverMasters_def List.map_filter_def image_iff split: sum.splits)

text \<open>The lookup of single processes and the process table show the same processes.\<close>

definition table_agrees :: "host \<Rightarrow> bool" where
  "table_agrees h \<longleftrightarrow>
     (\<forall>procs. h_processes h = Inr procs \<longrightarrow>
        (\<forall>q p. h_new_process h q = Inr p \<longleftrightarrow> p \<in> set procs \<and> p_pid p = q))"

lemma go_int32_mod: "go_int32 x = (x + 2 ^ 31) mod 2 ^ 32 - 2 ^ 31"
  by (simp add: go_int32_def signed_take_bit_eq_take_bit_shift take_bit_eq_mod)

text \<open>
  C8. The identity check agrees with discovery: on a host whose process table and single-process lookup
  agree, a positive pid is accepted exactly when discovery lists a master under it and, when a
  configuration is given, that master's configuration is the same path. The pid is compared in the 32
  bits of the lookup: a number of \<open>2\<^sup>3\<^sup>1\<close> or more stands for the pid it wraps to.
\<close>

theorem verifyMaster_iff:
  assumes "table_agrees h" and "DiscoverMasters h = Inr ms"
  shows "verifyMaster h pid configPath = None \<longleftrightarrow>
    0 < pid \<and> list_ex (\<lambda>m. m_PID m = (pid + 2 ^ 31) mod 2 ^ 32 - 2 ^ 31 \<and>
      (configPath = [] \<or> clean (m_ConfigPath m) = clean configPath)) ms"
proof -
  obtain procs where procs: "h_processes h = Inr procs"
    using assms(2) by (auto simp: DiscoverMasters_def split: sum.splits)
  have look: "h_new_process h (go_int32 pid) = Inr p \<longleftrightarrow> p \<in> set procs \<and> p_pid p = go_int32 pid" for p
    using assms(1) procs by (simp add: table_agrees_def)
  have "verifyMaster h pid configPath = None \<longleftrightarrow>
      0 < pid \<and> (\<exists>p m. h_new_process h (go_int32 pid) = Inr p \<and> master_of h p = Some m \<and>
        (configPath = [] \<or> clean (m_ConfigPath m) = clean configPath))"
    by (auto simp: verifyMaster_def master_of_def split: sum.splits option.splits)
  also have "\<dots> \<longleftrightarrow> 0 < pid \<and> (\<exists>m \<in> set ms. m_PID m = go_int32 pid \<and>
        (configPath = [] \<or> clean (m_ConfigPath m) = clean configPath))"
    unfolding look Bex_def DiscoverMasters_member [OF assms(2)] procs by (auto simp: master_of_Some)
  finally show ?thesis unfolding list_ex_iff go_int32_mod .
qed

theorem verifyMaster_iff_witness:
  "verifyMaster demo_host 4294967303 ''/etc/x/../f.conf'' = None \<and> verifyMaster demo_host 8 [] \<noteq> None"
proof -
  let ?m = "\<lparr>m_PID = 7, m_Binary = ''/usr/php-fpm'', m_ConfigPath = ''/etc/f.conf''\<rparr>"
  have "table_agrees demo_host"
    by (auto simp: table_agrees_def demo_host_def demo_master_def split: if_splits)
  moreover have "DiscoverMasters demo_host = Inr [?m]"
    using demo_master_of by (simp add: DiscoverMasters_def List.map_filter_def demo_host_def)
  moreover have "clean ''/etc/f.conf'' = clean ''/etc/x/../f.conf''" by code_simp
  ultimately show ?thesis
    using verifyMaster_iff [of demo_host "[?m]" 4294967303 "''/etc/x/../f.conf''"]
      verifyMaster_iff [of demo_host "[?m]" 8 "[]"] by simp
qed

text \<open>
  C9. A reload signals nothing but the pid it was asked for, with SIGUSR2, once, and only when the
  check just before found it to be the master of the configuration; it succeeds exactly when the
  signal was delivered as well.
\<close>

theorem reload_signals_only_masters:
  "snd (ReloadMaster h h' pid configPath) = (if serves h pid configPath then [(pid, SIGUSR2)] else []) \<and>
   (fst (ReloadMaster h h' pid configPath) = None \<longleftrightarrow>
      serves h pid configPath \<and> h_signal h' pid SIGUSR2 = None)"
  by (auto simp: ReloadMaster_def reload_def verifyMaster_None [symmetric] split: option.splits)

lemma crosses_four_mib:
  "crosses 4194304 ws \<longleftrightarrow> (\<exists>before p after. ws = before @ p # after \<and> length (concat before) < 4194304 \<and>
     4194304 < length (concat before) + length p)"
proof -
  have "int a < 4194304 \<and> 4194304 < int a + int b \<longleftrightarrow> a < 4194304 \<and> 4194304 < a + b" for a b by linarith
  then show ?thesis unfolding crosses_def by blast
qed

lemma Validate_trusted:
  assumes "trusted_spec h binary"
  shows "Validate h binary configPath =
    (let x = cmd_run maxCapturedOutput (h_exec h binary (validate_args configPath))
     in (case snd x of
           None \<Rightarrow> None
         | Some e \<Rightarrow> Some (case h_ctx_err h of
              Some c \<Rightarrow> NotFinished c
            | None \<Rightarrow> Rejected (RunFailed e) (trim_space (lw_w (fst x)))), [(binary, validate_args configPath)]))"
proof -
  have t: "trustedPath h binary = None" using assms by (simp add: trustedPath_None)
  then have "is_abs binary" and "binary \<noteq> []" by (auto simp: trustedPath_def is_abs_def split: if_splits)
  with t show ?thesis
    by (simp add: Validate_def runBounded_def case_prod_unfold Let_def split: option.split)
qed

lemma Validate_untrusted:
  assumes "\<not> trusted_spec h binary"
  shows "fst (Validate h binary configPath) \<noteq> None \<and> snd (Validate h binary configPath) = []"
proof -
  obtain e where "trustedPath h binary = Some e" using assms by (auto simp: trustedPath_None [symmetric])
  then show ?thesis by (simp add: Validate_def runBounded_def split: option.split)
qed

text \<open>
  C30. A configuration passes validation exactly when the binary is trusted and \<^verbatim>\<open>php-fpm -t\<close>, pointed at
  that configuration when one is given, ends without an error and without a write that crosses the
  limit of four MiB on what is captured. Nothing but the trusted binary is executed for it, once, and
  when it ends with an error the caller gets the error of the context or, if that is still alive, the
  exit error with the beginning of what php-fpm said.
\<close>

theorem Validate_iff:
  "let args = ''-t'' # (if configPath = [] then [] else [''--fpm-config'', configPath]);
       x = h_exec h binary args
   in (fst (Validate h binary configPath) = None \<longleftrightarrow>
         trusted_spec h binary \<and> x_exit x = None \<and>
         (\<nexists>before p after. x_writes x = before @ p # after \<and> length (concat before) < 4194304 \<and>
            4194304 < length (concat before) + length p)) \<and>
      snd (Validate h binary configPath) = (if trusted_spec h binary then [(binary, args)] else []) \<and>
      (case (trusted_spec h binary, x_exit x) of
         (True, Some e) \<Rightarrow>
           fst (Validate h binary configPath) =
             Some (case h_ctx_err h of
                Some ctxErr \<Rightarrow> NotFinished ctxErr
              | None \<Rightarrow> Rejected (RunFailed (ExitError e)) (trim_space (take 4194304 (concat (x_writes x)))))
       | _ \<Rightarrow> True)"
proof -
  let ?args = "''-t'' # (if configPath = [] then [] else [''--fpm-config'', configPath])"
  let ?x = "h_exec h binary ?args"
  have args: "validate_args configPath = ?args" by (simp add: validate_args_def)
  let ?run = "cmd_run maxCapturedOutput ?x"
  have err: "snd ?run = None \<longleftrightarrow> x_exit ?x = None \<and>
      (\<nexists>before p after. x_writes ?x = before @ p # after \<and> length (concat before) < 4194304 \<and>
        4194304 < length (concat before) + length p)"
    using cmd_run_short [of maxCapturedOutput ?x] crosses_four_mib [of "x_writes ?x"]
    by (simp add: maxCapturedOutput_def)
  have out: "lw_w (fst ?run) = take 4194304 (concat (x_writes ?x))"
    using cmd_run_bytes [of maxCapturedOutput ?x] by (simp add: maxCapturedOutput_def)
  have exit: "snd ?run = Some (ExitError e)" if "x_exit ?x = Some e" for e
    using that by (simp add: cmd_run_def case_prod_unfold)
  show ?thesis
  proof (cases "trusted_spec h binary")
    case True
    have V: "Validate h binary configPath =
        (case snd ?run of
           None \<Rightarrow> None
         | Some e \<Rightarrow> Some (case h_ctx_err h of
              Some c \<Rightarrow> NotFinished c
            | None \<Rightarrow> Rejected (RunFailed e) (trim_space (take 4194304 (concat (x_writes ?x))))), [(binary, ?args)])"
      unfolding Validate_trusted [OF True] args Let_def out ..
    show ?thesis unfolding Let_def V fst_conv snd_conv err [symmetric]
      using True exit by (cases "x_exit ?x"; cases "snd ?run") auto
  next
    case False
    then show ?thesis unfolding Let_def by (simp add: Validate_untrusted)
  qed
qed

section \<open>The pid file\<close>

lemma itoa_visible: "0 \<le> i \<Longrightarrow> visible_edges (itoa i)"
  using digits_of_hd [of "nat i"] digits_of_digit [of "last (digits_of (nat i))" "nat i"]
  by (simp add: itoa_def visible_edges_def digit_visible)

lemma atoi_padded:
  assumes "0 \<le> i" and "i < 2 ^ 63" and "\<forall>c \<in> set a. blank c" and "\<forall>c \<in> set b. blank c"
  shows "atoi (trim_space (a @ itoa i @ b)) = (i, None)"
  using assms by (simp add: trim_space_pad itoa_visible atoi_def parse_int64_itoa)

text \<open>
  A pid file that holds a number, padded or not, yields that number exactly when it is the pid of
  a trusted master now: a stale file is never believed.
\<close>

theorem MasterPID_exact:
  assumes "h_read_file h pidFile = Inr (a @ itoa pid @ b)" and "0 \<le> pid" and "pid < 2 ^ 63"
    and "\<forall>c \<in> set a. blank c" and "\<forall>c \<in> set b. blank c"
  shows "MasterPID h pidFile = Inr q \<longleftrightarrow> q = pid \<and> serves h pid []"
  using assms atoi_padded [OF assms(2-5)]
  by (auto simp: MasterPID_def VerifyMaster_def verifyMaster_None [symmetric] split: option.splits)

text \<open>A host whose pid file holds \<open>2 ^ 32 + 7\<close>, on which pid 7 is a master.\<close>

definition wide_pid_host :: host where
  "wide_pid_host = demo_host\<lparr>h_read_file := (\<lambda>p.
     if p = ''/run/ok.pid'' then Inr ''7'' else if p = ''/run/fpm.pid'' then Inr ''4294967303'' else Inl ErrNotExist)\<rparr>"

theorem MasterPID_exact_witness: "MasterPID wide_pid_host ''/run/ok.pid'' = Inr 7"
proof -
  have "h_read_file wide_pid_host ''/run/ok.pid'' = Inr ([] @ itoa 7 @ [])" by code_simp
  moreover have "serves wide_pid_host 7 []" unfolding verifyMaster_None [symmetric] by code_simp
  ultimately show ?thesis using MasterPID_exact [of wide_pid_host "''/run/ok.pid''" "[]" 7 "[]" 7] by simp
qed

text \<open>
  The check looks the process up under the low 32 bits of the number: a pid file can hold a
  number that is no pid of the host and is still accepted, because another master has the pid
  that is left after the truncation.
\<close>

theorem MasterPID_truncates:
  "\<exists>h procs pidFile pid. h_processes h = Inr procs \<and> pid \<notin> p_pid ` set procs \<and>
     (\<forall>p. h_new_process h pid \<noteq> Inr p) \<and> MasterPID h pidFile = Inr pid"
proof -
  have "MasterPID wide_pid_host ''/run/fpm.pid'' = Inr 4294967303" by code_simp
  moreover have "h_processes wide_pid_host = Inr [demo_master]" and "4294967303 \<notin> p_pid ` set [demo_master]"
    and "\<forall>p. h_new_process wide_pid_host 4294967303 \<noteq> Inr p"
    by (simp_all add: wide_pid_host_def demo_host_def demo_master_def)
  ultimately show ?thesis by blast
qed

section \<open>The successor\<close>

text \<open>The candidates the scan can find: trusted masters of the same configuration under another pid.\<close>

definition scan_candidate :: "host \<Rightarrow> reload_target \<Rightarrow> int \<Rightarrow> bool" where
  "scan_candidate h tgt pid \<longleftrightarrow>
     rt_ConfigPath tgt \<noteq> [] \<and> 0 < pid \<and> pid \<noteq> rt_PID tgt \<and>
     (\<exists>procs p m. h_processes h = Inr procs \<and> p \<in> set procs \<and> master_of h p = Some m \<and>
        m_PID m = pid \<and> clean (m_ConfigPath m) = clean (rt_ConfigPath tgt))"

definition file_candidate :: "round \<Rightarrow> reload_target \<Rightarrow> int \<Rightarrow> bool" where
  "file_candidate r tgt pid \<longleftrightarrow>
     rt_PIDFile tgt \<noteq> [] \<and> MasterPID (rd_pidfile r) (rt_PIDFile tgt) = Inr pid \<and> pid \<noteq> rt_PID tgt \<and>
     serves (rd_pidverify r) pid (rt_ConfigPath tgt)"

lemma scan_candidate_found:
  assumes "DiscoverMasters h = Inr ms" and "rt_ConfigPath tgt \<noteq> []"
  shows "scan_candidate h tgt pid \<longleftrightarrow>
     (\<exists>m \<in> set ms. m_PID m = pid \<and> clean (m_ConfigPath m) = clean (rt_ConfigPath tgt) \<and> 0 < m_PID m \<and>
        m_PID m \<noteq> rt_PID tgt)"
  using assms(2) unfolding scan_candidate_def Bex_def DiscoverMasters_member [OF assms(1)] by blast

lemma successor_Some:
  assumes "successor r tgt = Some pid"
  shows "file_candidate r tgt pid \<or> scan_candidate (rd_scan r) tgt pid"
proof (rule disjCI)
  assume scan: "\<not> scan_candidate (rd_scan r) tgt pid"
  have "\<not> (rt_ConfigPath tgt \<noteq> [] \<and> (\<exists>ms. DiscoverMasters (rd_scan r) = Inr ms \<and>
      map_option m_PID (find (\<lambda>m. clean (m_ConfigPath m) = clean (rt_ConfigPath tgt) \<and> 0 < m_PID m \<and>
        m_PID m \<noteq> rt_PID tgt) ms) = Some pid))"
    using scan scan_candidate_found [of "rd_scan r" _ tgt pid] by (fastforce dest: find_SomeD)
  with assms show "file_candidate r tgt pid"
    by (auto simp: successor_def Let_def file_candidate_def verifyMaster_None
        split: if_splits sum.splits option.splits)
qed

lemma successor_None:
  assumes "successor r tgt = None"
  shows "\<not> file_candidate r tgt pid \<and> \<not> scan_candidate (rd_scan r) tgt pid"
proof -
  have by_file: "\<not> file_candidate r tgt pid"
    using assms by (auto simp: successor_def file_candidate_def verifyMaster_None)
  have "\<not> scan_candidate (rd_scan r) tgt pid"
  proof (cases "DiscoverMasters (rd_scan r)")
    case (Inl e)
    then show ?thesis by (auto simp: DiscoverMasters_def scan_candidate_def split: sum.splits)
  next
    case (Inr ms)
    show ?thesis
    proof (cases "rt_ConfigPath tgt = []")
      case False
      with assms Inr show ?thesis
        unfolding scan_candidate_found [OF Inr False]
        by (auto simp: successor_def Let_def find_None_iff split: option.splits)
    qed (simp add: scan_candidate_def)
  qed
  with by_file show ?thesis by simp
qed

text \<open>What the scan looks for in one process, and the first process of the table that has it.\<close>

definition proc_candidate :: "host \<Rightarrow> reload_target \<Rightarrow> proc_handle \<Rightarrow> bool" where
  "proc_candidate h tgt p \<longleftrightarrow>
     rt_ConfigPath tgt \<noteq> [] \<and> 0 < p_pid p \<and> p_pid p \<noteq> rt_PID tgt \<and>
     (\<exists>exe found. masterIdentity h p = Some (exe, found) \<and> clean found = clean (rt_ConfigPath tgt))"

definition first_candidate :: "host \<Rightarrow> reload_target \<Rightarrow> int \<Rightarrow> bool" where
  "first_candidate h tgt pid \<longleftrightarrow>
     (\<exists>before p after. h_processes h = Inr (before @ p # after) \<and> p_pid p = pid \<and> proc_candidate h tgt p \<and>
        (\<forall>q \<in> set before. \<not> proc_candidate h tgt q))"

lemma find_map_filter:
  "find P (List.map_filter f xs) = Some y \<longleftrightarrow>
     (\<exists>before x after. xs = before @ x # after \<and> f x = Some y \<and> P y \<and>
        (\<forall>z \<in> set before. \<forall>v. f z = Some v \<longrightarrow> \<not> P v))"
proof (induction xs)
  case (Cons a xs)
  show ?case
  proof (cases "\<exists>v. f a = Some v \<and> P v")
    case True
    then obtain v where v: "f a = Some v" "P v" by blast
    show ?thesis
    proof
      assume "find P (List.map_filter f (a # xs)) = Some y"
      with v have "a # xs = [] @ a # xs \<and> f a = Some y \<and> P y \<and> (\<forall>z \<in> set []. \<forall>v. f z = Some v \<longrightarrow> \<not> P v)"
        by (simp add: map_filter_Cons)
      then show "\<exists>before x after. a # xs = before @ x # after \<and> f x = Some y \<and> P y \<and>
        (\<forall>z \<in> set before. \<forall>v. f z = Some v \<longrightarrow> \<not> P v)" by blast
    next
      assume "\<exists>before x after. a # xs = before @ x # after \<and> f x = Some y \<and> P y \<and>
        (\<forall>z \<in> set before. \<forall>v. f z = Some v \<longrightarrow> \<not> P v)"
      then obtain before x after where split: "a # xs = before @ x # after" "f x = Some y"
          "\<forall>z \<in> set before. \<forall>v. f z = Some v \<longrightarrow> \<not> P v" by blast
      with v have "before = []" by (cases before) auto
      with split v show "find P (List.map_filter f (a # xs)) = Some y" by (simp add: map_filter_Cons)
    qed
  next
    case False
    have "find P (List.map_filter f (a # xs)) = find P (List.map_filter f xs)"
      using False by (cases "f a") (auto simp: map_filter_Cons)
    moreover have "(\<exists>before x after. a # xs = before @ x # after \<and> f x = Some y \<and> P y \<and>
        (\<forall>z \<in> set before. \<forall>v. f z = Some v \<longrightarrow> \<not> P v)) \<longleftrightarrow>
      (\<exists>before x after. xs = before @ x # after \<and> f x = Some y \<and> P y \<and>
        (\<forall>z \<in> set before. \<forall>v. f z = Some v \<longrightarrow> \<not> P v))"
      using False by (auto simp: Cons_eq_append_conv) (metis append_Cons list.set_intros set_ConsD)+
    ultimately show ?thesis using Cons.IH by simp
  qed
qed (simp add: List.map_filter_def)

text \<open>
  C29. The search for a successor returns the pid that the pid file names, when that is another pid
  and verified against our configuration. Otherwise it returns the pid of the first process of the
  table that is a trusted master of our configuration, compared as a path, under another positive pid,
  and it returns nothing exactly when there is neither, or no configuration to look for.
\<close>

theorem successor_exact:
  "successor r tgt = Some pid \<longleftrightarrow>
     file_candidate r tgt pid \<or> (\<nexists>q. file_candidate r tgt q) \<and> first_candidate (rd_scan r) tgt pid"
proof -
  let ?P = "\<lambda>m. clean (m_ConfigPath m) = clean (rt_ConfigPath tgt) \<and> 0 < m_PID m \<and> m_PID m \<noteq> rt_PID tgt"
  let ?scan = "if rt_ConfigPath tgt = [] then None
     else (case DiscoverMasters (rd_scan r) of Inl _ \<Rightarrow> None | Inr found \<Rightarrow> map_option m_PID (find ?P found))"
  have cand: "proc_candidate h tgt p \<longleftrightarrow> rt_ConfigPath tgt \<noteq> [] \<and> (\<exists>m. master_of h p = Some m \<and> ?P m)"
    and pid: "master_of h p = Some m \<Longrightarrow> m_PID m = p_pid p" for h p m
    by (auto simp: proc_candidate_def master_of_def split: option.splits)
  have scan: "?scan = Some pid \<longleftrightarrow> first_candidate (rd_scan r) tgt pid"
    unfolding first_candidate_def cand
    by (auto simp: DiscoverMasters_def find_map_filter pid split: sum.splits) (metis pid)+
  have "successor r tgt = (case (if rt_PIDFile tgt = [] then None
         else case MasterPID (rd_pidfile r) (rt_PIDFile tgt) of
           Inl _ \<Rightarrow> None
         | Inr q \<Rightarrow> if q \<noteq> rt_PID tgt \<and> verifyMaster (rd_pidverify r) q (rt_ConfigPath tgt) = None
             then Some q else None) of Some q \<Rightarrow> Some q | None \<Rightarrow> ?scan)"
    by (simp add: successor_def Let_def)
  then show ?thesis
    unfolding scan [symmetric] file_candidate_def verifyMaster_None [symmetric]
    by (auto split: sum.splits option.splits if_splits)
qed

section \<open>Watching a reload\<close>

text \<open>In one round the watched pid is still there: it answers, and its start time is the one of the anchor
  unless that could not be read.\<close>

definition still_there :: "goos \<Rightarrow> round \<Rightarrow> int \<Rightarrow> uint64 \<Rightarrow> bool" where
  "still_there os r pid anchor \<longleftrightarrow>
     processAlive os (rd_alive r) pid \<and> (anchor = 0 \<or> processStartedAt os (rd_same r) pid = anchor)"

text \<open>The watch moved to a pid before round \<open>m\<close>, and its start time was read then: the signalled pid
  before the first round, a successor in the round that found it.\<close>

definition watch_began ::
  "goos \<Rightarrow> host \<Rightarrow> (nat \<Rightarrow> round) \<Rightarrow> reload_target \<Rightarrow> nat \<Rightarrow> int \<Rightarrow> uint64 \<Rightarrow> bool" where
  "watch_began os h0 w tgt m pid anchor \<longleftrightarrow>
     (case m of
        0 \<Rightarrow> pid = rt_PID tgt \<and> anchor = processStartedAt os h0 pid
      | Suc k \<Rightarrow> anchor = processStartedAt os (rd_started (w k)) pid \<and>
          (\<exists>prev. successor (w k) (tgt\<lparr>rt_PID := prev\<rparr>) = Some pid))"

text \<open>A pid is anchored in round \<open>i\<close> when the watch moved to it before some round \<open>m\<close> and has not moved since:
  in every round from \<open>m\<close> to \<open>i\<close> the pid was still there, compared with that one reading, or no successor
  was to be found.\<close>

definition anchored ::
  "goos \<Rightarrow> host \<Rightarrow> (nat \<Rightarrow> round) \<Rightarrow> reload_target \<Rightarrow> nat \<Rightarrow> int \<Rightarrow> uint64 \<Rightarrow> bool" where
  "anchored os h0 w tgt i pid anchor \<longleftrightarrow>
     (\<exists>m \<le> i. watch_began os h0 w tgt m pid anchor \<and>
        (\<forall>j. m \<le> j \<and> j < i \<longrightarrow> still_there os (w j) pid anchor \<or> successor (w j) (tgt\<lparr>rt_PID := pid\<rparr>) = None))"

text \<open>The state of the host in the round in which a pid is reported as the surviving master.\<close>

definition survived :: "goos \<Rightarrow> host \<Rightarrow> (nat \<Rightarrow> round) \<Rightarrow> int \<Rightarrow> reload_target \<Rightarrow> nat \<Rightarrow> int \<Rightarrow> bool" where
  "survived os h0 w deadline tgt n pid \<longleftrightarrow>
     deadline < h_now (rd_now (w n)) \<and> serves (rd_verify (w n)) pid (rt_ConfigPath tgt) \<and>
     (\<exists>anchor. anchored os h0 w tgt n pid anchor \<and> still_there os (w n) pid anchor)"

definition died :: "goos \<Rightarrow> host \<Rightarrow> (nat \<Rightarrow> round) \<Rightarrow> int \<Rightarrow> reload_target \<Rightarrow> nat \<Rightarrow> int \<Rightarrow> bool" where
  "died os h0 w deadline tgt n pid \<longleftrightarrow>
     deadline < h_now (rd_late (w n)) \<and>
     (\<exists>anchor. anchored os h0 w tgt n pid anchor \<and> \<not> still_there os (w n) pid anchor) \<and>
     (\<nexists>pid'. file_candidate (w n) (tgt\<lparr>rt_PID := pid\<rparr>) pid' \<or>
             scan_candidate (rd_scan (w n)) (tgt\<lparr>rt_PID := pid\<rparr>) pid')"

lemma still_there_alt:
  "processAlive os (rd_alive r) pid \<and> sameProcess os (rd_same r) pid anchor \<longleftrightarrow> still_there os r pid anchor"
  by (simp add: still_there_def sameProcess_def)

lemma anchored_stays:
  assumes "anchored os h0 w tgt i pid anchor"
    and "still_there os (w i) pid anchor \<or> successor (w i) (tgt\<lparr>rt_PID := pid\<rparr>) = None"
  shows "anchored os h0 w tgt (Suc i) pid anchor"
proof -
  from assms(1) obtain m where m: "m \<le> i" "watch_began os h0 w tgt m pid anchor"
    and since: "\<forall>j. m \<le> j \<and> j < i \<longrightarrow> still_there os (w j) pid anchor \<or> successor (w j) (tgt\<lparr>rt_PID := pid\<rparr>) = None"
    unfolding anchored_def by blast
  have "\<forall>j. m \<le> j \<and> j < Suc i \<longrightarrow> still_there os (w j) pid anchor \<or> successor (w j) (tgt\<lparr>rt_PID := pid\<rparr>) = None"
    using since assms(2) by (auto simp: less_Suc_eq)
  with m show ?thesis unfolding anchored_def by (intro exI [of _ m]) simp
qed

lemma anchored_moves:
  "successor (w i) (tgt\<lparr>rt_PID := prev\<rparr>) = Some pid \<Longrightarrow>
   anchored os h0 w tgt (Suc i) pid (processStartedAt os (rd_started (w i)) pid)"
  unfolding anchored_def by (intro exI [of _ "Suc i"]) (auto simp: watch_began_def)

lemma watch_pause_Watch: "watch_pause r tgt st = Watch tgt' st' \<longleftrightarrow> h_ctx_err (rd_select r) = None \<and> tgt' = tgt \<and> st' = st"
  by (auto simp: watch_pause_def split: option.splits)

lemma watch_pause_Answer:
  "watch_pause r tgt st = Answer a \<longleftrightarrow> (\<exists>e. h_ctx_err (rd_select r) = Some e \<and> a = Inl (ContextDone e))"
  by (auto simp: watch_pause_def split: option.splits)

text \<open>One pass through the loop, with the two questions about the watched pid in one.\<close>

lemma watch_round_alt:
  "watch_round os r deadline tgt anchor =
     (case h_ctx_err (rd_ctx r) of
        Some e \<Rightarrow> Answer (Inl (ContextDone e))
      | None \<Rightarrow>
          if still_there os r (rt_PID tgt) anchor then
            (if deadline < h_now (rd_now r) then
               (case verifyMaster (rd_verify r) (rt_PID tgt) (rt_ConfigPath tgt) of
                  Some e \<Rightarrow> Answer (Inl (DidNotSurvive (rt_PID tgt) e))
                | None \<Rightarrow> Answer (Inr (rt_PID tgt)))
             else watch_pause r tgt anchor)
          else
            (case successor r tgt of
               Some pid \<Rightarrow> Watch (tgt\<lparr>rt_PID := pid\<rparr>) (processStartedAt os (rd_started r) pid)
             | None \<Rightarrow>
                 if deadline < h_now (rd_late r) then Answer (Inl (NoSuccessor (rt_PID tgt)))
                 else watch_pause r tgt anchor))"
  unfolding watch_round_def still_there_alt ..

lemma watch_round_keeps:
  assumes "watch_round os (w i) deadline (tgt\<lparr>rt_PID := p\<rparr>) st = Watch tgt' st'" and "anchored os h0 w tgt i p st"
  shows "anchored os h0 w tgt (Suc i) (rt_PID tgt') st' \<and> tgt' = tgt\<lparr>rt_PID := rt_PID tgt'\<rparr>"
  using assms anchored_stays [OF assms(2)] anchored_moves [where w = w and i = i and tgt = tgt and prev = p and os = os and ?h0.0 = h0]
  by (auto simp: watch_round_alt watch_pause_Watch split: option.splits if_splits)

lemma watch_round_Inr:
  assumes "watch_round os (w i) deadline (tgt\<lparr>rt_PID := p\<rparr>) st = Answer (Inr pid)" and "anchored os h0 w tgt i p st"
  shows "survived os h0 w deadline tgt i pid"
  using assms
  by (auto simp: watch_round_alt watch_pause_Answer survived_def verifyMaster_None split: option.splits if_splits)

lemma watch_round_NoSuccessor:
  assumes "watch_round os (w i) deadline (tgt\<lparr>rt_PID := p\<rparr>) st = Answer (Inl (NoSuccessor pid))"
    and "anchored os h0 w tgt i p st"
  shows "died os h0 w deadline tgt i pid"
  using assms successor_None [of "w i" "tgt\<lparr>rt_PID := p\<rparr>"]
  by (auto simp: watch_round_alt watch_pause_Answer died_def split: option.splits if_splits)

text \<open>An answer of the loop is the answer of one of its rounds, given by a target that differs from the
  first only in its pid, with an anchor that belongs to that pid.\<close>

lemma watch_loop_answer:
  assumes "watch_loop os w deadline i t st = Some a" and "t = tgt\<lparr>rt_PID := p\<rparr>" and "anchored os h0 w tgt i p st"
  shows "\<exists>n pid st'. watch_round os (w n) deadline (tgt\<lparr>rt_PID := pid\<rparr>) st' = Answer a \<and>
    anchored os h0 w tgt n pid st'"
  using assms(2,3)
proof (induction arbitrary: p rule: watch_loop.raw_induct [OF _ assms(1)])
  case (1 watch_loop os w deadline i t st a)
  show ?case
  proof (cases "watch_round os (w i) deadline t st")
    case (Answer b)
    with 1 show ?thesis by auto
  next
    case (Watch t' st')
    with 1(3) have "watch_round os (w i) deadline (tgt\<lparr>rt_PID := p\<rparr>) st = Watch t' st'" by simp
    note keep = watch_round_keeps [OF this 1(4)]
    from Watch 1(2) have "watch_loop os w deadline (i + 1) t' st' = Some a" by simp
    from 1(1) [OF this, of "rt_PID t'"] keep show ?thesis by simp
  qed
qed

lemma ReloadAndWait_loop:
  assumes "ReloadAndWait os s w tgt settle = (Some a, sent)"
    and "fst (ReloadMaster (sl_verify s) (sl_signal s) (rt_PID tgt) (rt_ConfigPath tgt)) = None"
  shows "\<exists>n pid st. watch_round os (w n) (h_now (sl_now s) + settle) (tgt\<lparr>rt_PID := pid\<rparr>) st = Answer a \<and>
      anchored os (sl_started s) w tgt n pid st"
proof -
  let ?st = "processStartedAt os (sl_started s) (rt_PID tgt)"
  have "anchored os (sl_started s) w tgt 0 (rt_PID tgt) ?st"
    by (simp add: anchored_def watch_began_def)
  moreover have "watch_loop os w (h_now (sl_now s) + settle) 0 tgt ?st = Some a"
    using assms by (auto simp: ReloadAndWait_def split: prod.splits)
  ultimately show ?thesis
    using watch_loop_answer [where t = tgt and tgt = tgt and p = "rt_PID tgt" and ?h0.0 = "sl_started s"] by simp
qed

text \<open>
  C4. A reload reported as survived was one: the master asked for was verified and signalled once, and
  there is a round, after the settle window, in which the returned pid answers, has the start time that
  was read when the watch moved to it (unless none could be read then), and is verified to be a trusted
  master of the same configuration. Since that reading the watch has not moved: in every round between,
  the pid was still there with that same start time, or no successor was to be found.
\<close>

theorem ReloadAndWait_success:
  assumes "ReloadAndWait os s w tgt settle = (Some (Inr pid), sent)"
  shows "sent = [(rt_PID tgt, SIGUSR2)] \<and> serves (sl_verify s) (rt_PID tgt) (rt_ConfigPath tgt) \<and>
    (\<exists>n. survived os (sl_started s) w (h_now (sl_now s) + settle) tgt n pid)"
proof -
  let ?rm = "ReloadMaster (sl_verify s) (sl_signal s) (rt_PID tgt) (rt_ConfigPath tgt)"
  from assms have ok: "fst ?rm = None" and sent: "snd ?rm = sent"
    by (auto simp: ReloadAndWait_def split: prod.splits option.splits)
  from ok sent have "serves (sl_verify s) (rt_PID tgt) (rt_ConfigPath tgt)" and "sent = [(rt_PID tgt, SIGUSR2)]"
    by (auto simp: ReloadMaster_def reload_def verifyMaster_None [symmetric] split: option.splits)
  with ReloadAndWait_loop [OF assms ok] show ?thesis by (blast intro: watch_round_Inr)
qed

text \<open>
  C7. A master is reported dead only when it is: there is a round, after the settle window, in which
  the watched pid does not answer or is another process, and neither the pid file nor a scan of the
  process table has a trusted master of the configuration under another pid.
\<close>

theorem ReloadAndWait_dead:
  assumes "ReloadAndWait os s w tgt settle = (Some (Inl (NoSuccessor pid)), sent)"
  shows "\<exists>n. died os (sl_started s) w (h_now (sl_now s) + settle) tgt n pid"
proof -
  from assms have "fst (ReloadMaster (sl_verify s) (sl_signal s) (rt_PID tgt) (rt_ConfigPath tgt)) = None"
    by (auto simp: ReloadAndWait_def ReloadMaster_def reload_def split: prod.splits option.splits)
  from ReloadAndWait_loop [OF assms this] show ?thesis by (blast intro: watch_round_NoSuccessor)
qed

section \<open>Returning\<close>

text \<open>A round in which every look finds the same host.\<close>

definition steady :: "host \<Rightarrow> round" where
  "steady h = \<lparr>rd_ctx = h, rd_alive = h, rd_same = h, rd_now = h, rd_verify = h, rd_pidfile = h,
     rd_pidverify = h, rd_scan = h, rd_started = h, rd_late = h, rd_select = h\<rparr>"

lemma steady_looks [simp]:
  "rd_ctx (steady h) = h" "rd_alive (steady h) = h" "rd_same (steady h) = h" "rd_now (steady h) = h"
  "rd_verify (steady h) = h" "rd_pidfile (steady h) = h" "rd_pidverify (steady h) = h"
  "rd_scan (steady h) = h" "rd_started (steady h) = h" "rd_late (steady h) = h" "rd_select (steady h) = h"
  by (simp_all add: steady_def)

text \<open>The process table and the lookup of single processes agree.\<close>

definition coherent :: "host \<Rightarrow> bool" where
  "coherent h \<longleftrightarrow>
     (\<forall>procs p. h_processes h = Inr procs \<and> p \<in> set procs \<longrightarrow> h_new_process h (go_int32 (p_pid p)) = Inr p)"

lemma watch_loop_Suc:
  "watch_loop os w deadline i tgt st = (case watch_round os (w i) deadline tgt st of
      Answer a \<Rightarrow> Some a | Watch tgt' st' \<Rightarrow> watch_loop os w deadline (Suc i) tgt' st')"
  unfolding Suc_eq_plus1 by (rule watch_loop.simps)

lemma watch_round_target:
  "watch_round os r deadline (tgt\<lparr>rt_PID := p\<rparr>) st = Watch t st' \<Longrightarrow> t = tgt\<lparr>rt_PID := rt_PID t\<rparr>"
  by (auto simp: watch_round_def watch_pause_Watch split: option.splits if_splits)

text \<open>A run that returns from every state it can have in a later round returns.\<close>

lemma watch_loop_returns_later:
  assumes "\<And>p st. \<exists>a. watch_loop os w deadline (i + k) (tgt\<lparr>rt_PID := p\<rparr>) st = Some a"
  shows "\<exists>a. watch_loop os w deadline i (tgt\<lparr>rt_PID := p\<rparr>) st = Some a"
  using assms
proof (induction k arbitrary: i p st)
  case (Suc k)
  have rest: "\<exists>a. watch_loop os w deadline (Suc i) (tgt\<lparr>rt_PID := q\<rparr>) s = Some a" for q s
    using Suc.IH [of "Suc i"] Suc.prems by simp
  show ?case
  proof (cases "watch_round os (w i) deadline (tgt\<lparr>rt_PID := p\<rparr>) st")
    case (Watch t s)
    with rest [of "rt_PID t" s] show ?thesis
      using watch_round_target [OF Watch] by (simp add: watch_loop_Suc [of _ _ _ i])
  qed (simp add: watch_loop_Suc [of _ _ _ i])
qed simp

text \<open>After the settle window a round answers or moves to a successor; a successor that is still there in
  the next round makes that one answer.\<close>

lemma late_round_returns:
  assumes late: "\<And>j. i \<le> j \<Longrightarrow> deadline < h_now (rd_now (w j)) \<and> deadline < h_now (rd_late (w j))"
    and stays: "\<And>p pid. successor (w i) (tgt\<lparr>rt_PID := p\<rparr>) = Some pid \<Longrightarrow>
      still_there os (w (Suc i)) pid (processStartedAt os (rd_started (w i)) pid)"
  shows "\<exists>a. watch_loop os w deadline i (tgt\<lparr>rt_PID := p\<rparr>) st = Some a"
proof (cases "watch_round os (w i) deadline (tgt\<lparr>rt_PID := p\<rparr>) st")
  case (Watch t s)
  with late [of i] obtain pid where succ: "successor (w i) (tgt\<lparr>rt_PID := p\<rparr>) = Some pid"
    and t: "t = tgt\<lparr>rt_PID := pid\<rparr>" and s: "s = processStartedAt os (rd_started (w i)) pid"
    by (auto simp: watch_round_alt watch_pause_Watch split: option.splits if_splits)
  have "\<exists>a. watch_round os (w (Suc i)) deadline t s = Answer a"
    using stays [OF succ] late [of "Suc i"] by (auto simp: watch_round_alt t s split: option.splits)
  with Watch show ?thesis
    by (auto simp: watch_loop_Suc [of _ _ _ i] watch_loop_Suc [of _ _ _ "Suc i"])
qed (simp add: watch_loop_Suc [of _ _ _ i])

text \<open>
  C6. The call returns, however the host goes on changing: when the caller's context ends at some point,
  or when the clock passes the settle window for good and again and again there is a round after which
  the master that a search would find is still there, the same process, at the next look. It fails to
  return only under masters that are replaced between every two looks.
\<close>

theorem ReloadAndWait_returns:
  assumes "(\<exists>i. h_ctx_err (rd_ctx (w i)) \<noteq> None) \<or>
    (\<exists>N. \<forall>i\<ge>N. h_now (sl_now s) + settle < h_now (rd_now (w i)) \<and> h_now (sl_now s) + settle < h_now (rd_late (w i))) \<and>
    (\<forall>N. \<exists>i\<ge>N. \<forall>p pid. successor (w i) (tgt\<lparr>rt_PID := p\<rparr>) = Some pid \<longrightarrow>
       still_there os (w (Suc i)) pid (processStartedAt os (rd_started (w i)) pid))"
  shows "\<exists>a. fst (ReloadAndWait os s w tgt settle) = Some a"
proof -
  let ?d = "h_now (sl_now s) + settle"
  have "\<exists>N. \<forall>p st. \<exists>a. watch_loop os w ?d N (tgt\<lparr>rt_PID := p\<rparr>) st = Some a"
    using assms
  proof (elim disjE conjE)
    assume "\<exists>i. h_ctx_err (rd_ctx (w i)) \<noteq> None"
    then obtain i e where "h_ctx_err (rd_ctx (w i)) = Some e" by blast
    then show ?thesis by (intro exI [of _ i]) (simp add: watch_loop_Suc [of _ _ _ i] watch_round_def)
  next
    assume "\<exists>N. \<forall>i\<ge>N. ?d < h_now (rd_now (w i)) \<and> ?d < h_now (rd_late (w i))"
      and stays: "\<forall>N. \<exists>i\<ge>N. \<forall>p pid. successor (w i) (tgt\<lparr>rt_PID := p\<rparr>) = Some pid \<longrightarrow>
        still_there os (w (Suc i)) pid (processStartedAt os (rd_started (w i)) pid)"
    then obtain N where late: "\<forall>i\<ge>N. ?d < h_now (rd_now (w i)) \<and> ?d < h_now (rd_late (w i))" by blast
    from stays obtain i where "N \<le> i" and "\<forall>p pid. successor (w i) (tgt\<lparr>rt_PID := p\<rparr>) = Some pid \<longrightarrow>
        still_there os (w (Suc i)) pid (processStartedAt os (rd_started (w i)) pid)" by blast
    with late show ?thesis by (intro exI [of _ i] allI) (rule late_round_returns, simp_all)
  qed
  then have "\<exists>a. watch_loop os w ?d 0 (tgt\<lparr>rt_PID := rt_PID tgt\<rparr>) st = Some a" for st
    using watch_loop_returns_later [of os w ?d 0 _ tgt] by (metis add_0)
  then show ?thesis
    by (auto simp: ReloadAndWait_def split: prod.splits option.splits)
qed

lemma watch_loop_skip:
  assumes "\<And>j. i \<le> j \<Longrightarrow> j < n \<Longrightarrow> watch_round os (w j) deadline tgt st = Watch tgt st" and "i \<le> n"
  shows "watch_loop os w deadline i tgt st = watch_loop os w deadline n tgt st"
  using assms
proof (induction "n - i" arbitrary: i)
  case (Suc k)
  then have "watch_loop os w deadline i tgt st = watch_loop os w deadline (Suc i) tgt st"
    by (subst watch_loop_Suc) simp
  with Suc show ?case by simp
qed simp

text \<open>
  C5. A daemonized reload is recognised: when the signalled master is there for a while or not at all and
  then gone, a successor shows up before the settle window has closed on a round without one, stays the
  same process until the window has closed and is a trusted master of the configuration then, the call
  returns the successor's pid.
\<close>

theorem ReloadAndWait_daemonized:
  fixes os s w tgt settle n k pid
  defines "old \<equiv> processStartedAt os (sl_started s) (rt_PID tgt)"
    and "anchor \<equiv> processStartedAt os (rd_started (w n)) pid" and "deadline \<equiv> h_now (sl_now s) + settle"
  assumes ok: "fst (ReloadMaster (sl_verify s) (sl_signal s) (rt_PID tgt) (rt_ConfigPath tgt)) = None"
    and before: "\<forall>i<n. h_ctx_err (rd_ctx (w i)) = None \<and> h_ctx_err (rd_select (w i)) = None \<and>
      (if still_there os (w i) (rt_PID tgt) old then h_now (rd_now (w i)) \<le> deadline
       else successor (w i) tgt = None \<and> h_now (rd_late (w i)) \<le> deadline)"
    and gone: "h_ctx_err (rd_ctx (w n)) = None" "\<not> still_there os (w n) (rt_PID tgt) old"
    and succ: "successor (w n) tgt = Some pid"
    and lives: "\<forall>i. n < i \<and> i \<le> k \<longrightarrow> h_ctx_err (rd_ctx (w i)) = None \<and> still_there os (w i) pid anchor"
    and early: "\<forall>i. n < i \<and> i < k \<longrightarrow> h_ctx_err (rd_select (w i)) = None \<and> h_now (rd_now (w i)) \<le> deadline"
    and last: "n < k" "deadline < h_now (rd_now (w k))" "serves (rd_verify (w k)) pid (rt_ConfigPath tgt)"
  shows "ReloadAndWait os s w tgt settle = (Some (Inr pid), [(rt_PID tgt, SIGUSR2)])"
proof -
  let ?t = "tgt\<lparr>rt_PID := pid\<rparr>"
  have "watch_loop os w deadline 0 tgt old = watch_loop os w deadline n tgt old"
    using before by (intro watch_loop_skip) (auto simp: watch_round_alt watch_pause_def split: if_splits)
  also have "\<dots> = watch_loop os w deadline (Suc n) ?t anchor"
    using gone succ by (subst watch_loop_Suc) (simp add: watch_round_alt anchor_def)
  also have "\<dots> = watch_loop os w deadline k ?t anchor"
  proof (rule watch_loop_skip)
    fix j assume j: "Suc n \<le> j" "j < k"
    with early have "\<not> deadline < h_now (rd_now (w j))" and "h_ctx_err (rd_select (w j)) = None"
      by (simp_all add: not_less)
    with j lives show "watch_round os (w j) deadline ?t anchor = Watch ?t anchor"
      by (simp add: watch_round_alt watch_pause_def)
  qed (use last(1) in simp)
  also have "\<dots> = Some (Inr pid)"
    using lives last(1,2) verifyMaster_None [THEN iffD2, OF last(3)]
    by (subst watch_loop_Suc) (simp add: watch_round_alt)
  finally show ?thesis
    using ok
    by (auto simp: ReloadAndWait_def ReloadMaster_def reload_def old_def deadline_def split: option.splits)
qed

section \<open>A daemonized reload on a concrete host\<close>

definition demo_successor :: proc_handle where
  "demo_successor = demo_master\<lparr>p_pid := 9, p_create_time := Inr 900\<rparr>"

definition reloaded_host :: host where
  "reloaded_host = demo_host\<lparr>h_processes := Inr [demo_successor],
     h_new_process := (\<lambda>pid. if pid = 9 then Inr demo_successor else Inl ErrNotExist),
     h_signal := (\<lambda>pid _. if go_int32 pid = 9 then None else Some ErrNotExist), h_now := 10\<rparr>"

definition demo_looks :: start_looks where
  "demo_looks = \<lparr>sl_verify = demo_host, sl_signal = demo_host, sl_started = demo_host, sl_now = demo_host\<rparr>"

definition demo_target :: reload_target where
  "demo_target = \<lparr>rt_PID = 7, rt_PIDFile = [], rt_ConfigPath = ''/etc/x/../f.conf''\<rparr>"

lemma reloaded_successor: "successor (steady reloaded_host) demo_target = Some 9"
  by code_simp

lemma reloaded_serves: "serves reloaded_host 9 (rt_ConfigPath demo_target)"
  unfolding verifyMaster_None [symmetric] by code_simp

lemma demo_reload_ok:
  "fst (ReloadMaster (sl_verify demo_looks) (sl_signal demo_looks) (rt_PID demo_target) (rt_ConfigPath demo_target)) = None"
  by code_simp

lemma reloaded_facts:
  "h_ctx_err reloaded_host = None" "h_now reloaded_host = 10" "h_now (sl_now demo_looks) = 0" "rt_PID demo_target = 7"
  "\<not> processAlive NonLinux reloaded_host 7" "processAlive NonLinux reloaded_host 9"
  by (simp_all add: reloaded_host_def demo_host_def demo_looks_def demo_target_def processAlive_def isZombie_other_def)

text \<open>The old master answers in the first round, and is gone in the second.\<close>

definition demo_rounds :: "nat \<Rightarrow> round" where
  "demo_rounds i = steady (if i = 0 then demo_host else reloaded_host)"

theorem ReloadAndWait_daemonized_witness:
  "ReloadAndWait NonLinux demo_looks demo_rounds demo_target 3 = (Some (Inr 9), [(7, SIGUSR2)])"
proof -
  have old: "still_there NonLinux (demo_rounds 0) 7 (processStartedAt NonLinux (sl_started demo_looks) 7)"
    by (simp add: still_there_def demo_rounds_def demo_looks_def processAlive_def isZombie_other_def demo_host_def)
  have gone: "\<not> still_there NonLinux (demo_rounds 1) 7 st" for st
    using reloaded_facts by (simp add: still_there_def demo_rounds_def)
  have new: "still_there NonLinux (demo_rounds 2) 9 (processStartedAt NonLinux (rd_started (demo_rounds 1)) 9)"
    using reloaded_facts by (simp add: still_there_def demo_rounds_def)
  have "h_ctx_err demo_host = None" and "h_now demo_host = 0" by (simp_all add: demo_host_def)
  then show ?thesis
    using ReloadAndWait_daemonized [OF demo_reload_ok, where n = 1 and k = 2 and w = demo_rounds
        and os = NonLinux and pid = 9 and settle = 3] old gone new reloaded_facts reloaded_successor reloaded_serves
    by (simp add: demo_rounds_def less_Suc_eq le_Suc_eq numeral_2_eq_2 conj_disj_distribL all_conj_distrib)
qed

lemma demo_reload_result:
  "ReloadAndWait NonLinux demo_looks (\<lambda>_. steady reloaded_host) demo_target 3 = (Some (Inr 9), [(7, SIGUSR2)])"
proof -
  have "watch_round NonLinux (steady reloaded_host) 3 demo_target st = Watch (demo_target\<lparr>rt_PID := 9\<rparr>) 900" for st
    using reloaded_facts reloaded_successor
    by (simp add: watch_round_def) (simp add: processStartedAt_other_def reloaded_host_def demo_successor_def go_uint64_def)
  moreover have "watch_round NonLinux (steady reloaded_host) 3 (demo_target\<lparr>rt_PID := 9\<rparr>) 900 = Answer (Inr 9)"
    by code_simp
  ultimately show ?thesis
    using demo_reload_ok reloaded_facts
    by (auto simp: ReloadAndWait_def watch_loop_Suc ReloadMaster_def reload_def split: option.splits)
qed

theorem ReloadAndWait_success_witness:
  "serves demo_host 7 ''/etc/x/../f.conf'' \<and> (\<exists>h. serves h 9 ''/etc/x/../f.conf'')"
  using ReloadAndWait_success [OF demo_reload_result]
  by (auto simp: demo_looks_def demo_target_def survived_def)

text \<open>The same host with a clock that goes on.\<close>

definition ticking_rounds :: "nat \<Rightarrow> round" where
  "ticking_rounds i = steady (reloaded_host\<lparr>h_now := int i\<rparr>)"

lemma ticking_successor:
  assumes "successor (ticking_rounds i) (demo_target\<lparr>rt_PID := p\<rparr>) = Some pid"
  shows "pid = 9"
  using successor_Some [OF assms]
  by (auto simp: file_candidate_def scan_candidate_def ticking_rounds_def demo_target_def reloaded_host_def
      master_of_Some demo_successor_def)

theorem ReloadAndWait_returns_witness:
  "\<exists>a. fst (ReloadAndWait NonLinux demo_looks ticking_rounds demo_target 3) = Some a"
proof (rule ReloadAndWait_returns, rule disjI2, rule conjI)
  show "\<exists>N. \<forall>i\<ge>N. h_now (sl_now demo_looks) + 3 < h_now (rd_now (ticking_rounds i)) \<and>
      h_now (sl_now demo_looks) + 3 < h_now (rd_late (ticking_rounds i))"
    by (intro exI [of _ 4]) (simp add: reloaded_facts ticking_rounds_def)
  have "still_there NonLinux (ticking_rounds (Suc i)) 9 (processStartedAt NonLinux (rd_started (ticking_rounds i)) 9)" for i
    by (simp add: still_there_def ticking_rounds_def processAlive_def isZombie_other_def processStartedAt_other_def
        reloaded_host_def)
  then show "\<forall>N. \<exists>i\<ge>N. \<forall>p pid. successor (ticking_rounds i) (demo_target\<lparr>rt_PID := p\<rparr>) = Some pid \<longrightarrow>
      still_there NonLinux (ticking_rounds (Suc i)) pid (processStartedAt NonLinux (rd_started (ticking_rounds i)) pid)"
    using ticking_successor by blast
qed

definition dead_host :: host where
  "dead_host = reloaded_host\<lparr>h_processes := Inr [], h_new_process := (\<lambda>_. Inl ErrNotExist),
     h_signal := (\<lambda>_ _. Some ErrNotExist)\<rparr>"

lemma demo_dead_result:
  "ReloadAndWait NonLinux demo_looks (\<lambda>_. steady dead_host) demo_target 3 =
     (Some (Inl (NoSuccessor 7)), [(7, SIGUSR2)])"
proof -
  have "successor (steady dead_host) demo_target = None" by code_simp
  then have "watch_round NonLinux (steady dead_host) 3 demo_target st = Answer (Inl (NoSuccessor 7))" for st
    using reloaded_facts by (simp add: watch_round_def dead_host_def processAlive_def)
  then show ?thesis
    using demo_reload_ok reloaded_facts
    by (auto simp: ReloadAndWait_def watch_loop_Suc ReloadMaster_def reload_def split: option.splits)
qed

theorem ReloadAndWait_dead_witness:
  "\<not> scan_candidate dead_host demo_target 9"
  using ReloadAndWait_dead [OF demo_dead_result]
  by (auto simp: died_def demo_target_def)

end
