(* ===== verification/Cache_Interleaving.thy ===== *)
theory Cache_Interleaving
  imports Config_Cache
begin

text \<open>
  The configuration cache under concurrent use. \<^verbatim>\<open>ParseConfigContext\<close> holds the lock twice and
  runs php-fpm in between; other goroutines parse and invalidate at those moments, and the operator
  changes configuration files at any time. \<open>cache_step\<close> has one rule per atomic piece of the code
  and one for a change of the files. The result is that the cache never serves stale data for files
  that were invalidated after their last change, however the pieces interleave.
\<close>

section \<open>The contract of an epoch-guarded cache\<close>

locale epoch_cache =
  fixes lookup :: "'s \<Rightarrow> 'k \<Rightarrow> 'v option"
    and epoch :: "'s \<Rightarrow> 'e"
    and store :: "'k \<Rightarrow> 'e \<Rightarrow> 'v \<Rightarrow> 's \<Rightarrow> 's"
    and forget :: "'i \<Rightarrow> 's \<Rightarrow> 's"
    and covers :: "'i \<Rightarrow> 'k \<Rightarrow> bool"
  assumes store_current: "epoch s = e \<Longrightarrow> lookup (store k e v s) = (lookup s)(k \<mapsto> v)"
    and store_outdated: "epoch s \<noteq> e \<Longrightarrow> store k e v s = s"
    and store_epoch: "epoch (store k e v s) = epoch s"
    and forget_covered: "covers i k \<Longrightarrow> lookup (forget i s) k = None"
    and forget_keeps: "lookup (forget i s) k = Some v \<Longrightarrow> lookup s k = Some v"
    and forget_moves: "epoch (forget i s) \<noteq> epoch s"
begin

text \<open>Whatever is good of every entry stays good when only good results are stored under the
  current epoch; results of an older epoch do not matter.\<close>

lemma store_good:
  assumes "\<And>k v. lookup s k = Some v \<Longrightarrow> good k v" and "epoch s = e \<Longrightarrow> good k v"
    and "lookup (store k e v s) k' = Some v'"
  shows "good k' v'"
  using assms by (cases "epoch s = e") (auto simp: store_current store_outdated split: if_splits)

text \<open>After a forget only the entries it did not cover are left, so only those have to be good.\<close>

lemma forget_good:
  assumes "\<And>k v. lookup s k = Some v \<Longrightarrow> \<not> covers i k \<Longrightarrow> good k v" and "lookup (forget i s) k = Some v"
  shows "good k v"
  using assms forget_covered [of i k s] forget_keeps [of i s k v] by fastforce

text \<open>A result that was computed before a forget is dropped after it.\<close>

lemma store_after_forget: "store k (epoch s) v (forget i s) = forget i s"
  using forget_moves [of i s] by (simp add: store_outdated)

end

definition cache_lookup :: "config_cache \<Rightarrow> string \<Rightarrow> effective_config option" where
  "cache_lookup st key = map_of (cc_cache st) key"

definition invalidation_covers :: "string \<times> string \<Rightarrow> string \<Rightarrow> bool" where
  "invalidation_covers bc key \<longleftrightarrow> bc = ([], []) \<or> key = cacheKey (fst bc) (snd bc)"

definition invalidate_pair :: "string \<times> string \<Rightarrow> config_cache \<Rightarrow> config_cache" where
  "invalidate_pair bc = InvalidateConfigCache (fst bc) (snd bc)"

interpretation cfg: epoch_cache cache_lookup cc_epoch cache_store invalidate_pair invalidation_covers
proof unfold_locales
  fix s :: config_cache and k e and v :: effective_config
  assume "cc_epoch s = e"
  then show "cache_lookup (cache_store k e v s) = (cache_lookup s)(k \<mapsto> v)"
    by (auto simp: cache_lookup_def cache_store_def update_conv' fun_eq_iff)
next
  fix s :: config_cache and i k v
  assume "cache_lookup (invalidate_pair i s) k = Some v"
  then show "cache_lookup s k = Some v"
    by (auto simp: cache_lookup_def invalidate_pair_def InvalidateConfigCache_def delete_conv'
        split: if_splits)
qed (auto simp: cache_lookup_def cache_store_def invalidation_covers_def invalidate_pair_def
    InvalidateConfigCache_def delete_conv')

section \<open>The interleaved system\<close>

text \<open>A call in flight: its arguments, the epoch it read, what php-fpm reported (once it has), and,
  for the proof only, how many invalidations there had been when it read the epoch.\<close>

record parse_call =
  pc_binary :: string
  pc_config :: string
  pc_epoch :: uint64
  pc_result :: "effective_config option"
  pc_began :: nat

text \<open>The world: the cache, the calls in flight by goroutine, what the files of each pair say now,
  the pairs changed since they were last invalidated, the number of invalidations, and the arguments of
  the parses begun so far.\<close>

record cache_world =
  w_cache :: config_cache
  w_calls :: "nat \<rightharpoonup> parse_call"
  w_disk :: "string \<times> string \<Rightarrow> effective_config"
  w_dirty :: "(string \<times> string) set"
  w_invals :: nat
  w_parsed :: "(string \<times> string) set"

abbreviation files_of :: "string \<Rightarrow> string \<Rightarrow> string \<times> string" where
  "files_of b c \<equiv> (clean b, clean c)"

text \<open>A call that finds an entry in its first critical section changes nothing and is no step. A
  fork reports what the files say at that moment, or fails.\<close>

inductive cache_step :: "cache_world \<Rightarrow> cache_world \<Rightarrow> bool" where
  begin_miss:
    "\<lbrakk> is_abs b; w_calls w t = None;
       cache_read (w_cache w) (cacheKey b c) = (None, e) \<rbrakk> \<Longrightarrow>
     cache_step w (w\<lparr>w_calls := (w_calls w)(t \<mapsto>
       \<lparr>pc_binary = b, pc_config = c, pc_epoch = e, pc_result = None, pc_began = w_invals w\<rparr>),
       w_parsed := insert (b, c) (w_parsed w)\<rparr>)"
| fork:
    "\<lbrakk> w_calls w t = Some pc; pc_result pc = None \<rbrakk> \<Longrightarrow>
     cache_step w (w\<lparr>w_calls := (w_calls w)(t \<mapsto>
       pc\<lparr>pc_result := Some (w_disk w (files_of (pc_binary pc) (pc_config pc)))\<rparr>)\<rparr>)"
| fork_fails:
    "\<lbrakk> w_calls w t = Some pc; pc_result pc = None \<rbrakk> \<Longrightarrow>
     cache_step w (w\<lparr>w_calls := (w_calls w)(t := None)\<rparr>)"
| store:
    "\<lbrakk> w_calls w t = Some pc; pc_result pc = Some cfg \<rbrakk> \<Longrightarrow>
     cache_step w (w\<lparr>w_calls := (w_calls w)(t := None),
       w_cache := cache_store (cacheKey (pc_binary pc) (pc_config pc)) (pc_epoch pc) cfg (w_cache w)\<rparr>)"
| invalidate:
    "cache_step w (w\<lparr>w_cache := InvalidateConfigCache b c (w_cache w), w_invals := Suc (w_invals w),
       w_dirty := (if b = [] \<and> c = [] then {} else w_dirty w - {files_of b c})\<rparr>)"
| change_files:
    "cache_step w (w\<lparr>w_disk := (w_disk w)(f := cfg), w_dirty := insert f (w_dirty w)\<rparr>)"

definition initial_world :: "(string \<times> string \<Rightarrow> effective_config) \<Rightarrow> cache_world" where
  "initial_world disk =
     \<lparr>w_cache = empty_cache, w_calls = Map.empty, w_disk = disk, w_dirty = {}, w_invals = 0, w_parsed = {}\<rparr>"

abbreviation cache_reachable :: "cache_world \<Rightarrow> bool" where
  "cache_reachable \<equiv> reachable (\<lambda>w. w \<in> range initial_world) cache_step"

section \<open>The invariant\<close>

text \<open>An entry is good when it belongs to a pair that was parsed, and holds what the pair's files say now
  unless they have changed since they were last invalidated.\<close>

definition entry_good :: "cache_world \<Rightarrow> string \<Rightarrow> effective_config \<Rightarrow> bool" where
  "entry_good w key cfg \<longleftrightarrow>
     (\<exists>b c. (b, c) \<in> w_parsed w \<and> key = cacheKey b c \<and> (files_of b c \<notin> w_dirty w \<longrightarrow> cfg = w_disk w (files_of b c)))"

definition call_good :: "cache_world \<Rightarrow> parse_call \<Rightarrow> bool" where
  "call_good w pc \<longleftrightarrow>
     (pc_binary pc, pc_config pc) \<in> w_parsed w \<and> pc_began pc \<le> w_invals w \<and>
     pc_epoch pc = of_nat (pc_began pc) \<and>
     (\<forall>cfg. pc_result pc = Some cfg \<longrightarrow> pc_began pc = w_invals w \<longrightarrow>
        files_of (pc_binary pc) (pc_config pc) \<notin> w_dirty w \<longrightarrow>
        cfg = w_disk w (files_of (pc_binary pc) (pc_config pc)))"

definition cache_inv :: "cache_world \<Rightarrow> bool" where
  "cache_inv w \<longleftrightarrow>
     cc_epoch (w_cache w) = of_nat (w_invals w) \<and>
     (\<forall>key cfg. cache_lookup (w_cache w) key = Some cfg \<longrightarrow> entry_good w key cfg) \<and>
     (\<forall>t pc. w_calls w t = Some pc \<longrightarrow> call_good w pc)"

lemma of_nat_u64_inj:
  assumes "m < 2 ^ 64" and "n < 2 ^ 64" and "(of_nat m :: uint64) = of_nat n"
  shows "m = n"
proof -
  have "unat (of_nat k :: uint64) = k" if "k < 2 ^ 64" for k
    using that by (simp add: unat_of_nat)
  with assms show ?thesis by metis
qed

lemma call_entry_good:
  "call_good w pc \<Longrightarrow> pc_result pc = Some cfg \<Longrightarrow> pc_began pc = w_invals w \<Longrightarrow>
   entry_good w (cacheKey (pc_binary pc) (pc_config pc)) cfg"
  unfolding call_good_def entry_good_def by blast

text \<open>What keeps every entry good: the same parses or more, and no change to what the files of the
  entry's own key say.\<close>

lemma entry_good_mono:
  assumes "entry_good w key cfg" and "w_parsed w \<subseteq> w_parsed w'"
    and "\<And>b c. key = cacheKey b c \<Longrightarrow> files_of b c \<notin> w_dirty w' \<Longrightarrow>
      files_of b c \<notin> w_dirty w \<and> w_disk w' (files_of b c) = w_disk w (files_of b c)"
  shows "entry_good w' key cfg"
  using assms unfolding entry_good_def by (metis subsetD)

lemma entry_good_calls [simp]: "entry_good (w\<lparr>w_calls := x\<rparr>) = entry_good w"
  by (simp add: entry_good_def fun_eq_iff)

lemma entry_good_change:
  "entry_good w key cfg \<Longrightarrow> entry_good (w\<lparr>w_disk := (w_disk w)(f := x), w_dirty := insert f (w_dirty w)\<rparr>) key cfg"
  by (rule entry_good_mono) auto

lemma cache_step_invals: "cache_step w w' \<Longrightarrow> w_invals w \<le> w_invals w'"
  by (induction rule: cache_step.induct) auto

lemma cache_inv_invalidate:
  assumes "cache_inv w"
  shows "cache_inv (w\<lparr>w_cache := InvalidateConfigCache b c (w_cache w), w_invals := Suc (w_invals w),
       w_dirty := (if b = [] \<and> c = [] then {} else w_dirty w - {files_of b c})\<rparr>)"
proof -
  let ?w' = "w\<lparr>w_cache := InvalidateConfigCache b c (w_cache w), w_invals := Suc (w_invals w),
       w_dirty := (if b = [] \<and> c = [] then {} else w_dirty w - {files_of b c})\<rparr>"
  have "entry_good ?w' key cfg" if "cache_lookup (w_cache w) key = Some cfg"
      and "\<not> invalidation_covers (b, c) key" for key cfg
  proof (rule entry_good_mono)
    show "entry_good w key cfg" using that(1) assms by (simp add: cache_inv_def)
    show "w_parsed w \<subseteq> w_parsed ?w'" by simp
    fix b' c' assume "key = cacheKey b' c'" and "files_of b' c' \<notin> w_dirty ?w'"
    moreover from this that(2) have "files_of b' c' \<noteq> files_of b c" and "\<not> (b = [] \<and> c = [])"
      by (auto simp: invalidation_covers_def cacheKey_def)
    ultimately show "files_of b' c' \<notin> w_dirty w \<and> w_disk ?w' (files_of b' c') = w_disk w (files_of b' c')" by auto
  qed
  then have "entry_good ?w' key cfg" if "cache_lookup (invalidate_pair (b, c) (w_cache w)) key = Some cfg" for key cfg
    using cfg.forget_good [of "w_cache w" "(b, c)" "entry_good ?w'" key cfg] that by auto
  moreover have "call_good ?w' pc" if "call_good w pc" for pc
    using that by (simp add: call_good_def)
  moreover have "cc_epoch (InvalidateConfigCache b c (w_cache w)) = of_nat (Suc (w_invals w))"
    using assms by (simp add: cache_inv_def InvalidateConfigCache_def)
  ultimately show ?thesis
    using assms by (simp add: cache_inv_def invalidate_pair_def)
qed

lemma cache_inv_step:
  assumes "cache_step w w'" and "cache_inv w" and "w_invals w' < 2 ^ 64"
  shows "cache_inv w'"
  using assms
proof (induction rule: cache_step.induct)
  case (begin_miss b w t c e)
  let ?w' = "w\<lparr>w_calls := (w_calls w)(t \<mapsto> \<lparr>pc_binary = b, pc_config = c, pc_epoch = e, pc_result = None,
       pc_began = w_invals w\<rparr>), w_parsed := insert (b, c) (w_parsed w)\<rparr>"
  have "entry_good ?w' key cfg" if "entry_good w key cfg" for key cfg
    using that by (rule entry_good_mono) auto
  then show ?case
    using begin_miss by (auto simp: cache_inv_def call_good_def cache_read_def)
next
  case (store w t pc cfg)
  let ?key = "cacheKey (pc_binary pc) (pc_config pc)"
  let ?w' = "w\<lparr>w_calls := (w_calls w)(t := None), w_cache := cache_store ?key (pc_epoch pc) cfg (w_cache w)\<rparr>"
  have pc: "call_good w pc" using store by (auto simp: cache_inv_def)
  have now: "entry_good w ?key cfg" if "cc_epoch (w_cache w) = pc_epoch pc"
  proof -
    have "of_nat (w_invals w) = (of_nat (pc_began pc) :: uint64)" and "pc_began pc \<le> w_invals w"
      using that store pc by (auto simp: cache_inv_def call_good_def)
    then have "pc_began pc = w_invals w"
      using of_nat_u64_inj [of "w_invals w" "pc_began pc"] store.prems by simp
    with call_entry_good [OF pc store(2)] show ?thesis by simp
  qed
  have "entry_good w key' cfg'" if "cache_lookup (w_cache ?w') key' = Some cfg'" for key' cfg'
    using cfg.store_good [of "w_cache w" "entry_good w" "pc_epoch pc" ?key cfg key' cfg'] that now store.prems
    by (auto simp: cache_inv_def)
  then show ?case
    using store.prems cfg.store_epoch by (auto simp: cache_inv_def entry_good_def call_good_def)
next
  case (invalidate w b c)
  then show ?case by (intro cache_inv_invalidate)
next
  case (change_files w f cfg)
  then show ?case by (auto simp: cache_inv_def call_good_def intro: entry_good_change)
qed (auto simp: cache_inv_def call_good_def)

lemma cache_inv_initial: "cache_inv (initial_world disk)"
  by (simp add: cache_inv_def initial_world_def empty_cache_def cache_lookup_def)

interpretation cache_system: invariant_system "\<lambda>w. w \<in> range initial_world" cache_step
    "\<lambda>w. w_invals w < 2 ^ 64 \<longrightarrow> cache_inv w"
proof unfold_locales
  fix w w' assume step: "cache_step w w'" and "w_invals w < 2 ^ 64 \<longrightarrow> cache_inv w"
  with cache_step_invals [OF step] show "w_invals w' < 2 ^ 64 \<longrightarrow> cache_inv w'"
    by (auto intro: cache_inv_step)
qed (auto simp: cache_inv_initial)

text \<open>
  C2. However calls, forks, stores, invalidations and changes of the files interleave: if the files
  of a pair have not changed since they were last invalidated, whatever the cache holds for them is
  what they say now. A parse that began before an invalidation never puts old data back. This holds
  while there have been fewer than \<open>2\<^sup>6\<^sup>4\<close> invalidations, the width of the epoch counter, and for every
  pair that shares its key with no other pair of files that was ever parsed: the key joins the two
  paths, and two different pairs can have the same one.
\<close>

theorem cache_never_stale:
  assumes "cache_reachable w" and "w_invals w < 2 ^ 64"
    and "cache_read (w_cache w) (cacheKey b c) = (Some cfg, e)" and "(clean b, clean c) \<notin> w_dirty w"
    and "\<forall>(b', c') \<in> w_parsed w. cacheKey b' c' = cacheKey b c \<longrightarrow> clean b' = clean b \<and> clean c' = clean c"
  shows "cfg = w_disk w (clean b, clean c)"
proof -
  have "entry_good w (cacheKey b c) cfg"
    using cache_system.reachable_inv [OF assms(1)] assms(2,3)
    by (auto simp: cache_inv_def cache_read_def cache_lookup_def)
  then obtain b' c' where "(b', c') \<in> w_parsed w" "cacheKey b' c' = cacheKey b c"
      and "files_of b' c' \<notin> w_dirty w \<Longrightarrow> cfg = w_disk w (files_of b' c')"
    unfolding entry_good_def by metis
  with assms(4,5) show ?thesis by auto
qed

text \<open>Binaries without a colon in their path never share a key.\<close>

lemma no_shared_key:
  "CHR '':'' \<notin> set (clean b) \<Longrightarrow> CHR '':'' \<notin> set (clean b') \<Longrightarrow> cacheKey b' c' = cacheKey b c \<Longrightarrow>
   clean b' = clean b \<and> clean c' = clean c"
  using filepath.key_inject [of "CHR '':''" b' b "'':''" c' c] by (simp add: cacheKey_def)

text \<open>A run in which a parse straddles a change and its invalidation: the first goroutine's old
  result is dropped, the second one's is stored.\<close>

definition old_cfg :: effective_config where
  "old_cfg = \<lparr>ec_Global = [], ec_Pools = [(''www'', [(''pm.max_children'', ''4'')])]\<rparr>"

definition new_cfg :: effective_config where
  "new_cfg = \<lparr>ec_Global = [], ec_Pools = [(''www'', [(''pm.max_children'', ''12'')])]\<rparr>"

definition sample_call :: "uint64 \<Rightarrow> nat \<Rightarrow> effective_config option \<Rightarrow> parse_call" where
  "sample_call e n r = \<lparr>pc_binary = ''/b'', pc_config = ''/c'', pc_epoch = e, pc_result = r, pc_began = n\<rparr>"

definition sample_world :: "config_cache \<Rightarrow> (nat \<rightharpoonup> parse_call) \<Rightarrow> effective_config \<Rightarrow> (string \<times> string) set \<Rightarrow> nat
    \<Rightarrow> (string \<times> string) set \<Rightarrow> cache_world" where
  "sample_world st calls cfg dirty n ps =
     \<lparr>w_cache = st, w_calls = calls, w_disk = (\<lambda>_. old_cfg)((''/b'', ''/c'') := cfg), w_dirty = dirty,
      w_invals = n, w_parsed = ps\<rparr>"

lemma sample_paths: "clean ''/b'' = ''/b''" "clean ''/c'' = ''/c''" "cacheKey ''/b'' ''/c'' = ''/b::/c''" "is_abs ''/b''"
  by code_simp+

lemma sample_run:
  "cache_reachable (sample_world \<lparr>cc_cache = [(''/b::/c'', new_cfg)], cc_epoch = 1\<rparr> Map.empty new_cfg {} 1 {(''/b'', ''/c'')})"
proof -
  let ?ps = "{(''/b'', ''/c'')}" and ?c0 = "\<lparr>cc_cache = [], cc_epoch = 0\<rparr>" and ?c1 = "\<lparr>cc_cache = [], cc_epoch = 1\<rparr>"
  have "initial_world (\<lambda>_. old_cfg) = sample_world ?c0 Map.empty old_cfg {} 0 {}"
    by (auto simp: sample_world_def initial_world_def empty_cache_def fun_eq_iff)
  then have "cache_reachable (sample_world ?c0 Map.empty old_cfg {} 0 {})"
    using reachable.start [of "\<lambda>w. w \<in> range initial_world"] by (metis rangeI)
  then have "cache_reachable (sample_world ?c0 [1 \<mapsto> sample_call 0 0 None] old_cfg {} 0 ?ps)"
    by (rule reachable.move)
      (use begin_miss [of "''/b''" "sample_world ?c0 Map.empty old_cfg {} 0 {}" 1 "''/c''" 0] in
        \<open>simp add: sample_world_def sample_call_def sample_paths cache_read_def\<close>)
  then have "cache_reachable (sample_world ?c0 [1 \<mapsto> sample_call 0 0 (Some old_cfg)] old_cfg {} 0 ?ps)"
    by (rule reachable.move)
      (use fork [of "sample_world ?c0 [1 \<mapsto> sample_call 0 0 None] old_cfg {} 0 ?ps" 1 "sample_call 0 0 None"] in
        \<open>simp add: sample_world_def sample_call_def sample_paths\<close>)
  then have "cache_reachable (sample_world ?c0 [1 \<mapsto> sample_call 0 0 (Some old_cfg)] new_cfg {(''/b'', ''/c'')} 0 ?ps)"
    by (rule reachable.move)
      (use change_files [of "sample_world ?c0 [1 \<mapsto> sample_call 0 0 (Some old_cfg)] old_cfg {} 0 ?ps" "(''/b'', ''/c'')" new_cfg] in
        \<open>simp add: sample_world_def\<close>)
  then have "cache_reachable (sample_world ?c1 [1 \<mapsto> sample_call 0 0 (Some old_cfg)] new_cfg {} 1 ?ps)"
    by (rule reachable.move)
      (use invalidate [of "sample_world ?c0 [1 \<mapsto> sample_call 0 0 (Some old_cfg)] new_cfg {(''/b'', ''/c'')} 0 ?ps" "''/b''" "''/c''"] in
        \<open>simp add: sample_world_def sample_paths InvalidateConfigCache_def\<close>)
  then have "cache_reachable (sample_world ?c1 Map.empty new_cfg {} 1 ?ps)"
    by (rule reachable.move)
      (use store [of "sample_world ?c1 [1 \<mapsto> sample_call 0 0 (Some old_cfg)] new_cfg {} 1 ?ps" 1 "sample_call 0 0 (Some old_cfg)" old_cfg] in
        \<open>simp add: sample_world_def sample_call_def cache_store_def\<close>)
  then have "cache_reachable (sample_world ?c1 [2 \<mapsto> sample_call 1 1 None] new_cfg {} 1 ?ps)"
    by (rule reachable.move)
      (use begin_miss [of "''/b''" "sample_world ?c1 Map.empty new_cfg {} 1 ?ps" 2 "''/c''" 1] in
        \<open>simp add: sample_world_def sample_call_def sample_paths cache_read_def\<close>)
  then have "cache_reachable (sample_world ?c1 [2 \<mapsto> sample_call 1 1 (Some new_cfg)] new_cfg {} 1 ?ps)"
    by (rule reachable.move)
      (use fork [of "sample_world ?c1 [2 \<mapsto> sample_call 1 1 None] new_cfg {} 1 ?ps" 2 "sample_call 1 1 None"] in
        \<open>simp add: sample_world_def sample_call_def sample_paths\<close>)
  then show ?thesis
    by (rule reachable.move)
      (use store [of "sample_world ?c1 [2 \<mapsto> sample_call 1 1 (Some new_cfg)] new_cfg {} 1 ?ps" 2 "sample_call 1 1 (Some new_cfg)" new_cfg] in
        \<open>simp add: sample_world_def sample_call_def cache_store_def sample_paths\<close>)
qed

theorem cache_never_stale_witness:
  "let w = sample_world \<lparr>cc_cache = [(''/b::/c'', new_cfg)], cc_epoch = 1\<rparr> Map.empty new_cfg {} 1 {(''/b'', ''/c'')} in
   cache_reachable w \<and> cache_read (w_cache w) (cacheKey ''/b'' ''/c'') = (Some new_cfg, 1) \<and>
   new_cfg = w_disk w (clean ''/b'', clean ''/c'')"
proof -
  let ?w = "sample_world \<lparr>cc_cache = [(''/b::/c'', new_cfg)], cc_epoch = 1\<rparr> Map.empty new_cfg {} 1 {(''/b'', ''/c'')}"
  have hit: "cache_read (w_cache ?w) (cacheKey ''/b'' ''/c'') = (Some new_cfg, 1)"
    by (simp add: sample_world_def cache_read_def sample_paths)
  have "new_cfg = w_disk ?w (clean ''/b'', clean ''/c'')"
    using cache_never_stale [OF sample_run _ hit] by (simp add: sample_paths) (simp add: sample_world_def)
  with hit sample_run show ?thesis unfolding Let_def by blast
qed

end
