(* ===== verification/Pool_Types.thy ===== *)
theory Pool_Types
  imports Discover
begin

text \<open>
  The data that a scrape produces and works on: the target of a scrape (target.go), the worker, the pool
  and the outcome (metrics.go), the cache state PHP reports (opcache.go) and the PHP information
  (info.go), with the small operations on targets. The type \<open>'f\<close> stands for Go's \<^verbatim>\<open>float64\<close>: the
  program adds, divides and stores floating-point numbers but decides nothing by them.
\<close>

section \<open>Targets\<close>

record target =
  t_Name :: string
  t_Socket :: string
  t_StatusSocket :: string
  t_StatusPath :: string
  t_ConfigPath :: string
  t_Binary :: string
  t_MaxChildren :: int
  t_ProcessManager :: string
  t_Workload :: string
  t_PID :: int
  t_Timeout :: int

text \<open>Durations are in nanoseconds.\<close>

definition DefaultTimeout :: int where
  "DefaultTimeout = 3 * 1000000000"

definition dialTimeout :: "target \<Rightarrow> int" where
  "dialTimeout t = (if 0 < t_Timeout t then t_Timeout t else DefaultTimeout)"

definition statusAddress :: "target \<Rightarrow> string" where
  "statusAddress t = (if t_StatusSocket t \<noteq> [] then t_StatusSocket t else t_Socket t)"

definition label :: "target \<Rightarrow> string" where
  "label t =
     (if t_Name t \<noteq> [] then t_Name t
      else if t_StatusSocket t \<noteq> [] then t_StatusSocket t
      else t_Socket t)"

definition TargetFromDiscovered :: "discovered \<Rightarrow> target" where
  "TargetFromDiscovered d =
     \<lparr>t_Name = d_Name d, t_Socket = d_Socket d, t_StatusSocket = d_StatusSocket d,
      t_StatusPath = d_StatusPath d, t_ConfigPath = d_ConfigPath d, t_Binary = d_Binary d,
      t_MaxChildren = d_MaxChildren d, t_ProcessManager = d_ProcessManager d,
      t_Workload = d_Workload d, t_PID = d_PID d, t_Timeout = 0\<rparr>"

section \<open>What PHP reports about itself\<close>

record php_info =
  pi_Version :: string
  pi_Extensions :: "string list"

record 'f memory =
  UsedMemory :: uint64
  FreeMemory :: uint64
  WastedMemory :: uint64
  CurrentWastedPct :: 'f

record 'f stats =
  st_StartTime :: "uint64 option"
  LastRestartTime :: "uint64 option"
  NumCachedScripts :: uint64
  Hits :: uint64
  Misses :: uint64
  BlacklistMisses :: uint64
  OomRestarts :: uint64
  HashRestarts :: uint64
  ManualRestarts :: uint64
  HitRate :: 'f

record 'f opcache_status =
  os_Enabled :: bool
  MemoryUsage :: "'f memory"
  Statistics :: "'f stats"

section \<open>Pools and outcomes\<close>

record 'f pool_process =
  pp_PID :: int
  pp_State :: string
  pp_StartTime :: int64
  pp_StartSince :: int64
  pp_Requests :: int64
  pp_RequestDuration :: int64
  pp_RequestMethod :: string
  pp_RequestURI :: string
  pp_ContentLength :: int64
  pp_User :: string
  pp_Script :: string
  pp_LastRequestCPU :: 'f
  pp_LastRequestMemory :: 'f
  pp_CurrentRSS :: int64
  pp_CurrentPSS :: int64
  pp_SubtreeRSS :: int64

record 'f pool =
  po_Address :: string
  po_Path :: string
  po_Name :: string
  po_ProcessManager :: string
  po_StartTime :: int64
  po_StartSince :: int64
  po_AcceptedConnections :: int64
  po_ListenQueue :: int64
  po_MaxListenQueue :: int64
  po_ListenQueueLength :: int64
  po_IdleProcesses :: int64
  po_ActiveProcesses :: int64
  po_TotalProcesses :: int64
  po_MaxActiveProcesses :: int64
  po_MaxChildrenReached :: int64
  po_SlowRequests :: int64
  po_MemoryPeak :: int64
  po_Processes :: "'f pool_process list"
  po_ProcessesCpu :: "'f option"
  po_ProcessesMemory :: "'f option"
  po_Config :: strmap
  po_OpcacheObserved :: bool
  po_OpcacheStatus :: "'f opcache_status"
  po_PhpInfo :: php_info

record 'f scrape_result =
  sr_Timestamp :: int
  sr_Pools :: "'f pool gomap"
  sr_Global :: strmap

section \<open>Targets of discovered pools\<close>

lemma parseSocket_dials:
  assumes "parseSocket s \<noteq> []"
  shows "\<exists>scheme address. ParseAddress (parseSocket s) path = Inr (scheme, address, path)"
proof -
  have "has_prefix (parseSocket s) ''unix://'' \<or> has_prefix (parseSocket s) ''tcp://''"
    using assms by (auto simp: parseSocket_def split: if_splits)
  then show ?thesis by (auto simp: ParseAddress_def)
qed

text \<open>
  Every pool that discovery reports can be scraped: the target built from it has the pool's name as
  its label, a status address that \<^verbatim>\<open>ParseAddress\<close> accepts, and the default timeout.
\<close>

theorem discovered_target_dialable:
  assumes "classify_pool m global pool = Some (Inl d)"
  shows "\<exists>scheme address.
     ParseAddress (statusAddress (TargetFromDiscovered d)) (t_StatusPath (TargetFromDiscovered d)) =
       Inr (scheme, address, d_StatusPath d) \<and>
     (label (TargetFromDiscovered d) = fst pool \<or> fst pool = [] \<and> label (TargetFromDiscovered d) \<noteq> []) \<and>
     dialTimeout (TargetFromDiscovered d) = DefaultTimeout"
proof -
  let ?listen = "go_index (snd pool) ''listen''" and ?status = "go_index (snd pool) ''pm.status_listen''"
  from assms have usable: "parseSocket ?listen \<noteq> []"
    and d: "d_Name d = fst pool" "d_Socket d = parseSocket ?listen"
      "d_StatusSocket d = (if parseSocket ?status = [] then parseSocket ?listen else parseSocket ?status)"
    by (auto simp: classify_pool_def Let_def split: if_splits)
  obtain s where "statusAddress (TargetFromDiscovered d) = parseSocket s" and "parseSocket s \<noteq> []"
    using usable d by (cases "parseSocket ?status = []") (auto simp: statusAddress_def TargetFromDiscovered_def)
  then show ?thesis
    using parseSocket_dials [of s "d_StatusPath d"] usable d
    by (auto simp: TargetFromDiscovered_def label_def dialTimeout_def)
qed

theorem discovered_target_dialable_witness:
  "\<exists>d scheme address. classify_pool \<lparr>m_PID = 7, m_Binary = ''/usr/php-fpm'', m_ConfigPath = ''/etc/f.conf''\<rparr> []
       (''www'', [(''listen'', ''/w.sock''), (''pm.status_path'', ''/status'')]) = Some (Inl d) \<and>
     ParseAddress (statusAddress (TargetFromDiscovered d)) ''/status'' = Inr (scheme, address, ''/status'')"
proof -
  let ?c = "classify_pool \<lparr>m_PID = 7, m_Binary = ''/usr/php-fpm'', m_ConfigPath = ''/etc/f.conf''\<rparr> []
       (''www'', [(''listen'', ''/w.sock''), (''pm.status_path'', ''/status'')])"
  obtain d where d: "?c = Some (Inl d)" and path: "d_StatusPath d = ''/status''"
    by (simp add: classify_pool_def Let_def go_index_def parseSocket_def)
  from discovered_target_dialable [OF d] obtain scheme address where
    "ParseAddress (statusAddress (TargetFromDiscovered d)) (t_StatusPath (TargetFromDiscovered d)) = Inr (scheme, address, d_StatusPath d)"
    by blast
  with d path show ?thesis by (auto simp: TargetFromDiscovered_def)
qed

end
