(* ===== verification/Rss.thy ===== *)
theory Rss
  imports Pool_Types
begin

text \<open>
  \<^verbatim>\<open>rss.go\<close>: the snapshot of the process table, the memory of a worker and of everything descended
  from it, the proportional set size, and the loop that fills both into a pool's workers. Sizes are
  64-bit words: the sums wrap as Go's do, and comparisons are signed. The walk over descendants
  carries the set of processes already seen through all of its calls and stops below depth 64.
\<close>

section \<open>The snapshot\<close>

record snapshot =
  sn_children :: "(int \<times> int list) list"
  sn_byPID :: "(int \<times> proc_handle) list"

text \<open>\<^verbatim>\<open>s.children[pid]\<close>: the nil slice when the pid has no entry.\<close>

definition children_of :: "snapshot \<Rightarrow> int \<Rightarrow> int list" where
  "children_of s pid = (case map_of (sn_children s) pid of None \<Rightarrow> [] | Some cs \<Rightarrow> cs)"

definition snapshot_add :: "proc_handle \<Rightarrow> snapshot \<Rightarrow> snapshot" where
  "snapshot_add p s =
     (let s' = s\<lparr>sn_byPID := AList.update (p_pid p) p (sn_byPID s)\<rparr> in
      case p_ppid p of
        Inl _ \<Rightarrow> s'
      | Inr ppid \<Rightarrow> s'\<lparr>sn_children := AList.update ppid (children_of s' ppid @ [p_pid p]) (sn_children s')\<rparr>)"

definition snapshot_of :: "proc_handle list \<Rightarrow> snapshot" where
  "snapshot_of procs = fold snapshot_add procs \<lparr>sn_children = [], sn_byPID = []\<rparr>"

definition snapshotProcesses :: "host \<Rightarrow> snapshot option" where
  "snapshotProcesses h = (case h_processes h of Inl _ \<Rightarrow> None | Inr procs \<Rightarrow> Some (snapshot_of procs))"

definition memory_rss :: "os_error + uint64 option \<Rightarrow> int64 option" where
  "memory_rss m = (case m of Inl _ \<Rightarrow> None | Inr None \<Rightarrow> None | Inr (Some rss) \<Rightarrow> Some rss)"

definition rssOf :: "snapshot \<Rightarrow> int \<Rightarrow> int64" where
  "rssOf s pid =
     (case map_of (sn_byPID s) pid of
        None \<Rightarrow> 0
      | Some p \<Rightarrow> (case memory_rss (p_memory p) of None \<Rightarrow> 0 | Some rss \<Rightarrow> rss))"

section \<open>The subtree\<close>

text \<open>The call and the loop over the children. Both return the total and the processes seen, which
  Go shares through one map.\<close>

function (sequential)
  subtreeRSSBounded :: "snapshot \<Rightarrow> int \<Rightarrow> int list \<Rightarrow> nat \<Rightarrow> int64 \<times> int list"
  and subtree_children :: "snapshot \<Rightarrow> int list \<Rightarrow> int list \<Rightarrow> nat \<Rightarrow> int64 \<Rightarrow> int64 \<times> int list"
where
  "subtreeRSSBounded s pid seen depth =
     (if pid \<in> set seen \<or> 64 < depth then (0, seen)
      else subtree_children s (children_of s pid) (pid # seen) (depth + 1) (rssOf s pid))"
| "subtree_children s [] seen depth tot = (tot, seen)"
| "subtree_children s (c # cs) seen depth tot =
     (case subtreeRSSBounded s c seen depth of (r, seen') \<Rightarrow>
        subtree_children s cs seen' depth (tot + r))"
  by pat_completeness auto
termination
  by (relation "measures [\<lambda>x. case x of Inl (s, pid, seen, depth) \<Rightarrow> 2 * (66 - depth)
                          | Inr (s, cs, seen, depth, tot) \<Rightarrow> 2 * (66 - depth) + 1,
                  \<lambda>x. case x of Inl _ \<Rightarrow> 0 | Inr (s, cs, _) \<Rightarrow> length cs]") auto

declare subtreeRSSBounded.simps [simp del]

definition subtreeRSS :: "snapshot \<Rightarrow> int \<Rightarrow> int64" where
  "subtreeRSS s pid = fst (subtreeRSSBounded s pid [] 0)"

section \<open>Proportional set size\<close>

fun parsePSSLines :: "string list \<Rightarrow> int64" where
  "parsePSSLines [] = 0"
| "parsePSSLines (line # lines) =
     (if \<not> has_prefix line ''Pss:'' then parsePSSLines lines
      else case go_fields (drop 4 line) of
        [] \<Rightarrow> 0
      | f # _ \<Rightarrow> (case parse_int64 f of (_, Some _) \<Rightarrow> 0 | (kb, None) \<Rightarrow> word_of_int kb * 1024))"

definition parsePSSBytes :: "string \<Rightarrow> int64" where
  "parsePSSBytes data = parsePSSLines (split_byte newline data)"

definition pssOf :: "host \<Rightarrow> int \<Rightarrow> int64" where
  "pssOf h pid =
     (if pid \<le> 0 then 0
      else case h_read_file h (''/proc/'' @ itoa pid @ ''/smaps_rollup'') of
        Inl _ \<Rightarrow> 0
      | Inr data \<Rightarrow> parsePSSBytes data)"

section \<open>Filling in the workers\<close>

text \<open>One pass of the loop: the worker with its memory filled in, or \<open>None\<close> when it is missing. A
  worker without a pid is left alone and does not count as missing.\<close>

definition enrich_worker ::
  "host \<Rightarrow> snapshot option \<Rightarrow> 'f pool_process \<Rightarrow> 'f pool_process option" where
  "enrich_worker h snap w =
     (if pp_PID w \<le> 0 then Some w
      else case h_new_process h (go_int32 (pp_PID w)) of
        Inl _ \<Rightarrow> None
      | Inr proc \<Rightarrow>
          (case memory_rss (p_memory proc) of
             None \<Rightarrow> None
           | Some own \<Rightarrow>
               let w' = w\<lparr>pp_CurrentRSS := own, pp_CurrentPSS := pssOf h (pp_PID w)\<rparr> in
               case snap of
                 None \<Rightarrow> Some w'
               | Some s \<Rightarrow>
                   let subtree = subtreeRSS s (go_int32 (pp_PID w)) in
                   Some (w'\<lparr>pp_SubtreeRSS := if subtree <s own then own else subtree\<rparr>)))"

text \<open>The pool, and the level of the message about workers that could not be read.\<close>

definition enrichWorkerRSS ::
  "host \<Rightarrow> snapshot option \<Rightarrow> 'f pool \<Rightarrow> 'f pool \<times> log_level option" where
  "enrichWorkerRSS h snap p =
     (let rs = map (\<lambda>w. (w, enrich_worker h snap w)) (po_Processes p);
          missing = length (filter (\<lambda>(w, r). r = None) rs)
      in (p\<lparr>po_Processes := map (\<lambda>(w, r). case r of None \<Rightarrow> w | Some w' \<Rightarrow> w') rs\<rparr>,
          if missing = length (po_Processes p) \<and> 0 < missing then Some LogWarn
          else if 0 < missing then Some LogDebug
          else None))"

section \<open>The snapshot is the process table\<close>

lemma snapshot_add_children:
  "children_of (snapshot_add p s) q = children_of s q @ (if p_ppid p = Inr q then [p_pid p] else [])"
  by (auto simp: snapshot_add_def children_of_def Let_def update_conv' split: sum.splits option.splits)

lemma fold_children:
  "children_of (fold snapshot_add procs s) q = children_of s q @ map p_pid (filter (\<lambda>p. p_ppid p = Inr q) procs)"
  by (induction procs arbitrary: s) (simp_all add: snapshot_add_children)

lemma snapshot_children:
  "children_of (snapshot_of procs) q = map p_pid (filter (\<lambda>p. p_ppid p = Inr q) procs)"
  using fold_children [of procs "\<lparr>sn_children = [], sn_byPID = []\<rparr>" q]
  by (simp add: snapshot_of_def) (simp add: children_of_def)

lemma snapshot_add_byPID: "map_of (sn_byPID (snapshot_add p s)) = (map_of (sn_byPID s))(p_pid p \<mapsto> p)"
  by (auto simp: snapshot_add_def Let_def update_conv' split: sum.splits)

lemma snapshot_byPID:
  "map_of (sn_byPID (snapshot_of procs)) q = map_of (rev (map (\<lambda>p. (p_pid p, p)) procs)) q"
proof -
  have "map_of (sn_byPID (fold snapshot_add procs s)) =
      map_of (sn_byPID s) ++ map_of (rev (map (\<lambda>p. (p_pid p, p)) procs))" for s
    by (induction procs arbitrary: s) (simp_all add: snapshot_add_byPID)
  then show ?thesis by (simp add: snapshot_of_def)
qed

section \<open>What the walk visits\<close>

text \<open>The edges of the walk: from a process to a child outside the set already seen. \<open>reach S n p\<close>
  are the processes fewer than \<open>n\<close> such edges away from \<open>p\<close>.\<close>

definition edges :: "snapshot \<Rightarrow> int set \<Rightarrow> (int \<times> int) set" where
  "edges s S = {(p, q). q \<in> set (children_of s p) \<and> q \<notin> S}"

definition reach :: "snapshot \<Rightarrow> int set \<Rightarrow> nat \<Rightarrow> int \<Rightarrow> int set" where
  "reach s S n p = {q. p \<notin> S \<and> (\<exists>k < n. (p, q) \<in> edges s S ^^ k)}"

text \<open>Every process has one parent and is listed once under it.\<close>

definition forest :: "snapshot \<Rightarrow> bool" where
  "forest s \<longleftrightarrow>
     (\<forall>p. distinct (children_of s p)) \<and>
     (\<forall>p p' q. q \<in> set (children_of s p) \<and> q \<in> set (children_of s p') \<longrightarrow> p = p')"

lemma forest_snapshot:
  assumes "distinct (map p_pid procs)"
  shows "forest (snapshot_of procs)"
proof -
  have "distinct (map p_pid (filter (\<lambda>p. p_ppid p = Inr q) procs))" for q
    using assms by (simp add: distinct_map inj_on_def)
  moreover have "p = p'" if "p \<in> set procs" "p' \<in> set procs" "p_pid p = p_pid p'" for p p'
    using assms that by (simp add: distinct_map inj_on_def)
  ultimately show ?thesis
    unfolding forest_def snapshot_children by (auto, metis Inr_inject)
qed

lemma edges_target: "(c, q) \<in> edges s S ^^ n \<Longrightarrow> c \<notin> S \<Longrightarrow> q \<notin> S"
  by (cases n) (auto simp: edges_def)

lemma edges_mono: "S \<subseteq> T \<Longrightarrow> edges s T \<subseteq> edges s S"
  by (auto simp: edges_def)

lemma relpow_subset: "(R :: ('a \<times> 'a) set) \<subseteq> R' \<Longrightarrow> (a, b) \<in> R ^^ n \<Longrightarrow> (a, b) \<in> R' ^^ n"
  by (induction n arbitrary: b) auto

text \<open>A path cannot enter a child from anywhere but its parent, which is in the seen set.\<close>

lemma no_path_to_sibling:
  assumes "forest s" and "p \<in> S" and "c \<in> set (children_of s p)" and "c' \<notin> S" and "0 < n"
  shows "(c', c) \<notin> edges s S ^^ n"
proof
  assume path: "(c', c) \<in> edges s S ^^ n"
  from assms(5) obtain k where n: "n = Suc k" by (cases n) auto
  from path n obtain x where x: "(c', x) \<in> edges s S ^^ k" "(x, c) \<in> edges s S" by auto
  then have "x = p" using assms(1,3) by (auto simp: edges_def forest_def)
  moreover have "x \<notin> S" using edges_target [OF x(1) assms(4)] .
  ultimately show False using assms(2) by simp
qed

lemma siblings_disjoint:
  assumes "forest s" and "p \<in> S" and "c \<in> set (children_of s p)" and "c' \<in> set (children_of s p)"
    and "c \<noteq> c'" and "c \<notin> S" and "c' \<notin> S" and "(c, q) \<in> edges s S ^^ n"
  shows "(c', q) \<notin> edges s S ^^ m"
  using assms(8)
proof (induction n arbitrary: q m)
  case 0
  then show ?case
    using assms(5) no_path_to_sibling [OF assms(1-3,7), of m] by (cases m) auto
next
  case (Suc n)
  show ?case
  proof (cases m)
    case 0
    then show ?thesis using Suc.prems no_path_to_sibling [OF assms(1,2,4,6), of "Suc n"] by auto
  next
    case (Suc k)
    from Suc.prems obtain x where x: "(c, x) \<in> edges s S ^^ n" "(x, q) \<in> edges s S" by auto
    have "y = x" if "(y, q) \<in> edges s S" for y
      using that x(2) assms(1) unfolding edges_def forest_def by blast
    with Suc.IH [OF x(1), of k] show ?thesis using Suc by auto
  qed
qed

text \<open>The processes reached from \<open>p\<close>: itself, and what its children reach when \<open>p\<close> is not
  entered again.\<close>

lemma path_cut:
  "(p, q) \<in> edges s S ^^ n \<Longrightarrow>
   q = p \<or> (\<exists>c \<in> set (children_of s p). c \<notin> insert p S \<and> (\<exists>m < n. (c, q) \<in> edges s (insert p S) ^^ m))"
proof (induction n arbitrary: q)
  case (Suc n)
  then obtain x where x: "(p, x) \<in> edges s S ^^ n" "(x, q) \<in> edges s S" by auto
  show ?case
  proof (cases "q = p")
    case False
    with x(2) have xq: "(x, q) \<in> edges s (insert p S)" by (auto simp: edges_def)
    from Suc.IH [OF x(1)] show ?thesis
    proof (elim disjE bexE conjE exE)
      assume "x = p"
      with xq have "q \<in> set (children_of s p)" "q \<notin> insert p S" by (auto simp: edges_def)
      moreover have "(q, q) \<in> edges s (insert p S) ^^ 0" by simp
      ultimately show ?thesis by blast
    next
      fix c m assume "c \<in> set (children_of s p)" "c \<notin> insert p S" "m < n" "(c, x) \<in> edges s (insert p S) ^^ m"
      moreover from this xq have "(c, q) \<in> edges s (insert p S) ^^ Suc m" by auto
      ultimately show ?thesis by (meson Suc_mono)
    qed
  qed simp
qed simp

lemma reach_unfold:
  assumes "p \<notin> S"
  shows "reach s S (Suc n) p = insert p (\<Union>c \<in> set (children_of s p). reach s (insert p S) n c)"
proof (intro equalityI subsetI)
  fix q assume "q \<in> reach s S (Suc n) p"
  then obtain k where "k < Suc n" "(p, q) \<in> edges s S ^^ k" by (auto simp: reach_def)
  with path_cut [OF this(2)] show "q \<in> insert p (\<Union>c \<in> set (children_of s p). reach s (insert p S) n c)"
    by (force simp: reach_def)
next
  fix q assume "q \<in> insert p (\<Union>c \<in> set (children_of s p). reach s (insert p S) n c)"
  then consider "q = p" | c k where "c \<in> set (children_of s p)" "c \<notin> insert p S" "k < n"
      "(c, q) \<in> edges s (insert p S) ^^ k"
    by (auto simp: reach_def)
  then show "q \<in> reach s S (Suc n) p"
  proof cases
    case 1
    with assms show ?thesis by (auto simp: reach_def intro: exI [of _ 0])
  next
    case (2 c k)
    then have "(c, q) \<in> edges s S ^^ k"
      using relpow_subset [OF edges_mono [of S "insert p S"]] by blast
    moreover have "(p, c) \<in> edges s S" using 2 by (auto simp: edges_def)
    ultimately have "(p, q) \<in> edges s S ^^ Suc k" by (meson relpow_Suc_I2)
    with 2(3) assms show ?thesis by (force simp: reach_def)
  qed
qed

text \<open>What an earlier sibling reached does not stand in the way of a later one.\<close>

lemma reach_after_siblings:
  assumes "forest s" and "p \<in> S" and "set cs \<subseteq> set (children_of s p)" and "c \<in> set (children_of s p)"
    and "c \<notin> set cs"
  shows "reach s (S \<union> (\<Union>d \<in> set cs. reach s S n d)) n c = reach s S n c"
    (is "reach s ?T n c = _")
proof (cases "c \<in> S")
  case False
  have apart: "q \<notin> reach s S n d" if "d \<in> set cs" "(c, q) \<in> edges s S ^^ m" for d q m
  proof -
    have "d \<in> set (children_of s p)" and "c \<noteq> d" using that(1) assms(3,5) by auto
    from siblings_disjoint [OF assms(1,2,4) this False _ that(2)] show ?thesis by (auto simp: reach_def)
  qed
  then have c: "c \<notin> ?T" using False by (metis UN_E Un_iff relpow_0_I)
  have "(c, q) \<in> edges s ?T ^^ k" if "(c, q) \<in> edges s S ^^ k" for q k
    using that
  proof (induction k arbitrary: q)
    case (Suc k)
    then obtain x where "(c, x) \<in> edges s S ^^ k" "(x, q) \<in> edges s S" by auto
    with Suc.IH apart [OF _ Suc.prems] show ?case by (auto simp: edges_def intro!: relcompI)
  qed simp
  moreover have "(c, q) \<in> edges s S ^^ k" if "(c, q) \<in> edges s ?T ^^ k" for q k
    using that relpow_subset [OF edges_mono [of S ?T]] by blast
  ultimately show ?thesis using c False by (auto simp: reach_def)
qed (auto simp: reach_def)

lemma subtree_stop: "pid \<in> set seen \<or> 64 < depth \<Longrightarrow> subtreeRSSBounded s pid seen depth = (0, seen)"
  by (subst subtreeRSSBounded.simps) simp

lemma subtree_enter:
  "\<not> (pid \<in> set seen \<or> 64 < depth) \<Longrightarrow>
   subtreeRSSBounded s pid seen depth = subtree_children s (children_of s pid) (pid # seen) (depth + 1) (rssOf s pid)"
  by (subst subtreeRSSBounded.simps) simp

lemma subtree_seen:
  "set seen \<subseteq> set (snd (subtreeRSSBounded s pid seen depth))"
  "set seen \<subseteq> set (snd (subtree_children s cs seen depth tot))"
proof (induction s pid seen depth and s cs seen depth tot rule: subtreeRSSBounded_subtree_children.induct)
  case (1 s pid seen depth)
  then show ?case
    by (cases "pid \<in> set seen \<or> 64 < depth") (auto simp: subtree_stop subtree_enter)
next
  case (3 s c cs seen depth tot)
  obtain r seen' where "subtreeRSSBounded s c seen depth = (r, seen')" by fastforce
  with 3(1) 3(2) [OF this [symmetric]] show ?case by auto
qed simp

text \<open>The total of a call is the memory of what it adds to the seen set, each process once.\<close>

lemma subtree_total:
  "fst (subtreeRSSBounded s pid seen depth) =
     (\<Sum>q \<in> set (snd (subtreeRSSBounded s pid seen depth)) - set seen. rssOf s q)"
  "fst (subtree_children s cs seen depth tot) =
     tot + (\<Sum>q \<in> set (snd (subtree_children s cs seen depth tot)) - set seen. rssOf s q)"
proof (induction s pid seen depth and s cs seen depth tot rule: subtreeRSSBounded_subtree_children.induct)
  case (1 s pid seen depth)
  show ?case
  proof (cases "pid \<in> set seen \<or> 64 < depth")
    case False
    let ?out = "set (snd (subtree_children s (children_of s pid) (pid # seen) (depth + 1) (rssOf s pid)))"
    have eq: "?out - set seen = insert pid (?out - set (pid # seen))"
      using False subtree_seen(2) [of "pid # seen" s "children_of s pid"] by auto
    have "(\<Sum>q \<in> ?out - set seen. rssOf s q) = rssOf s pid + (\<Sum>q \<in> ?out - set (pid # seen). rssOf s q)"
      unfolding eq by (rule sum.insert) simp_all
    with 1 [OF False] show ?thesis unfolding subtree_enter [OF False] by simp
  qed (simp add: subtree_stop)
next
  case (3 s c cs seen depth tot)
  obtain r seen' where r: "subtreeRSSBounded s c seen depth = (r, seen')" by fastforce
  let ?out = "set (snd (subtree_children s cs seen' depth (tot + r)))"
  have sub: "set seen \<subseteq> set seen'" "set seen' \<subseteq> ?out"
    using subtree_seen(1) [of seen s c depth] subtree_seen(2) [of seen' s cs] r by simp_all
  then have "?out - set seen = (set seen' - set seen) \<union> (?out - set seen')" by auto
  then have "(\<Sum>q \<in> ?out - set seen. rssOf s q) = (\<Sum>q \<in> set seen' - set seen. rssOf s q) + (\<Sum>q \<in> ?out - set seen'. rssOf s q)"
    by (simp only:) (rule sum.union_disjoint, auto)
  with 3(1) 3(2) [OF r [symmetric]] r show ?case by (simp add: add.assoc)
qed simp_all

text \<open>What a call adds to the seen set is what can be reached from its process within the depth left.\<close>

lemma subtree_visits:
  "forest s \<Longrightarrow> set (snd (subtreeRSSBounded s pid seen depth)) = set seen \<union> reach s (set seen) (65 - depth) pid"
  "forest s \<Longrightarrow> p \<in> S \<Longrightarrow> children_of s p = ds @ cs \<Longrightarrow>
     set seen = S \<union> (\<Union>d \<in> set ds. reach s S (65 - depth) d) \<Longrightarrow>
     set (snd (subtree_children s cs seen depth tot)) = S \<union> (\<Union>d \<in> set (ds @ cs). reach s S (65 - depth) d)"
proof (induction s pid seen depth and s cs seen depth tot arbitrary: and p S ds rule: subtreeRSSBounded_subtree_children.induct)
  case (1 s pid seen depth)
  show ?case
  proof (cases "pid \<in> set seen \<or> 64 < depth")
    case True
    then show ?thesis unfolding subtree_stop [OF True] by (auto simp: reach_def)
  next
    case False
    then have "65 - depth = Suc (65 - (depth + 1))" by auto
    then have "reach s (set seen) (65 - depth) pid =
        insert pid (\<Union>c \<in> set (children_of s pid). reach s (insert pid (set seen)) (65 - (depth + 1)) c)"
      using False reach_unfold [of pid "set seen" s "65 - (depth + 1)"] by simp
    with 1(1) [OF False 1(2), of pid "insert pid (set seen)" "[]"] show ?thesis
      unfolding subtree_enter [OF False] by auto
  qed
next
  case (2 s seen depth tot)
  then show ?case by simp
next
  case (3 s c cs seen depth tot)
  obtain r seen' where r: "subtreeRSSBounded s c seen depth = (r, seen')" by fastforce
  have "distinct (ds @ c # cs)" using 3(3,5) by (metis forest_def)
  then have "reach s (set seen) (65 - depth) c = reach s S (65 - depth) c"
    using reach_after_siblings [OF 3(3,4), of ds c "65 - depth"] 3(5,6) by auto
  then have "set seen' = S \<union> (\<Union>d \<in> set (ds @ [c]). reach s S (65 - depth) d)"
    using 3(1) [OF 3(3)] r 3(6) by auto
  with 3(2) [OF r [symmetric] 3(3,4), of "ds @ [c]"] 3(5) r show ?case by simp
qed

section \<open>The memory of a worker and its descendants\<close>

text \<open>The processes at most \<open>n\<close> generations below a pid in a process table, the pid included, and the
  memory the table has for a pid.\<close>

definition parent_of :: "proc_handle list \<Rightarrow> (int \<times> int) set" where
  "parent_of procs = {(p, q). \<exists>x \<in> set procs. p_ppid x = Inr p \<and> p_pid x = q}"

definition descendants :: "proc_handle list \<Rightarrow> nat \<Rightarrow> int \<Rightarrow> int set" where
  "descendants procs n pid = {q. \<exists>k \<le> n. (pid, q) \<in> parent_of procs ^^ k}"

definition table_rss :: "proc_handle list \<Rightarrow> int \<Rightarrow> int64" where
  "table_rss procs q =
     (case map_of (map (\<lambda>p. (p_pid p, p)) procs) q of
        Some p \<Rightarrow> (case p_memory p of Inr (Some rss) \<Rightarrow> rss | _ \<Rightarrow> 0)
      | None \<Rightarrow> 0)"

lemma snapshot_edges: "edges (snapshot_of procs) {} = parent_of procs"
  by (auto simp: edges_def parent_of_def snapshot_children image_iff)

lemma snapshot_rss:
  assumes "distinct (map p_pid procs)"
  shows "rssOf (snapshot_of procs) q = table_rss procs q"
proof -
  let ?tab = "map (\<lambda>p. (p_pid p, p)) procs"
  have "distinct (map fst ?tab)" and "distinct (map fst (rev ?tab))"
    using assms by (simp_all add: o_def flip: rev_map)
  then have "map_of (rev ?tab) = map_of ?tab" by (simp add: map_of_inject_set)
  then show ?thesis
    by (auto simp: rssOf_def table_rss_def snapshot_byPID memory_rss_def split: option.splits sum.splits)
qed

text \<open>
  C12. In a process table whose pids are distinct, the memory of a subtree is the sum over the process
  and everything descended from it within 64 generations, each process counted once, even when
  the parent links form a cycle. The walk always ends.
\<close>

theorem subtreeRSS_exact:
  assumes "h_processes h = Inr procs" and "distinct (map p_pid procs)"
  shows "\<exists>s. snapshotProcesses h = Some s \<and>
     subtreeRSS s pid = (\<Sum>q \<in> descendants procs 64 pid. table_rss procs q)"
proof -
  let ?s = "snapshot_of procs"
  have "set (snd (subtreeRSSBounded ?s pid [] 0)) = reach ?s {} 65 pid"
    using subtree_visits(1) [OF forest_snapshot [OF assms(2)], of pid "[]" 0] by simp
  moreover have "reach ?s {} 65 pid = descendants procs 64 pid"
    by (auto simp: reach_def descendants_def snapshot_edges less_Suc_eq_le numeral_eq_Suc)
  ultimately have "subtreeRSS ?s pid = (\<Sum>q \<in> descendants procs 64 pid. rssOf ?s q)"
    using subtree_total(1) [of ?s pid "[]" 0] by (simp add: subtreeRSS_def)
  with assms show ?thesis
    by (simp add: snapshotProcesses_def snapshot_rss)
qed

text \<open>A worker's memory as the operating system gives it, when it gives it.\<close>

definition readable_rss :: "host \<Rightarrow> int \<Rightarrow> int64 option" where
  "readable_rss h pid =
     (case h_new_process h (go_int32 pid) of Inl _ \<Rightarrow> None | Inr p \<Rightarrow> memory_rss (p_memory p))"

lemma enrich_worker_None: "enrich_worker h snap w = None \<longleftrightarrow> 0 < pp_PID w \<and> readable_rss h (pp_PID w) = None"
  by (auto simp: enrich_worker_def readable_rss_def Let_def split: sum.splits option.splits)

lemma enrich_worker_Some:
  assumes "0 < pp_PID w" and "readable_rss h (pp_PID w) = Some own"
  shows "enrich_worker h snap w = Some (w\<lparr>pp_CurrentRSS := own, pp_CurrentPSS := pssOf h (pp_PID w),
     pp_SubtreeRSS := (case snap of None \<Rightarrow> pp_SubtreeRSS w
       | Some s \<Rightarrow> let t = subtreeRSS s (go_int32 (pp_PID w)) in if t <s own then own else t)\<rparr>)"
  using assms by (auto simp: enrich_worker_def readable_rss_def Let_def split: sum.splits option.splits)

text \<open>How a worker relates to the one it was filled in from.\<close>

definition worker_filled ::
  "host \<Rightarrow> snapshot option \<Rightarrow> 'f pool_process \<Rightarrow> 'f pool_process \<Rightarrow> bool" where
  "worker_filled h snap w w' \<longleftrightarrow>
     (case (if 0 < pp_PID w then readable_rss h (pp_PID w) else None) of
        None \<Rightarrow> w' = w
      | Some own \<Rightarrow>
          pp_PID w' = pp_PID w \<and> pp_CurrentRSS w' = own \<and> pp_CurrentPSS w' = pssOf h (pp_PID w) \<and>
          (case snap of
             None \<Rightarrow> pp_SubtreeRSS w' = pp_SubtreeRSS w
           | Some s \<Rightarrow> own \<le>s pp_SubtreeRSS w' \<and> subtreeRSS s (go_int32 (pp_PID w)) \<le>s pp_SubtreeRSS w'))"

lemma enrich_worker_filled:
  "worker_filled h snap w (case enrich_worker h snap w of None \<Rightarrow> w | Some w' \<Rightarrow> w')"
proof (cases "0 < pp_PID w")
  case True
  then show ?thesis
    using enrich_worker_None [of h snap w]
    by (auto simp: worker_filled_def enrich_worker_Some Let_def word_sle_eq word_sless_alt split: option.splits)
qed (simp add: worker_filled_def enrich_worker_def)

text \<open>
  C33. Filling in the memory keeps the list of workers. A worker whose memory can be read gets it, its
  proportional size, and, when there is a snapshot, a subtree that is never below its own memory; a
  worker that cannot be read keeps what it had. The loud message comes exactly when there are workers
  and none of them could be read.
\<close>

theorem enrichWorkerRSS_workers:
  "list_all2 (worker_filled h snap) (po_Processes p) (po_Processes (fst (enrichWorkerRSS h snap p))) \<and>
   (snd (enrichWorkerRSS h snap p) = Some LogWarn \<longleftrightarrow>
      po_Processes p \<noteq> [] \<and> list_all (\<lambda>w. 0 < pp_PID w \<and> readable_rss h (pp_PID w) = None) (po_Processes p))"
proof
  have "po_Processes (fst (enrichWorkerRSS h snap p)) =
      map (\<lambda>w. case enrich_worker h snap w of None \<Rightarrow> w | Some w' \<Rightarrow> w') (po_Processes p)"
    by (simp add: enrichWorkerRSS_def Let_def)
  then show "list_all2 (worker_filled h snap) (po_Processes p) (po_Processes (fst (enrichWorkerRSS h snap p)))"
    by (simp add: list_all2_map2 list_all2_same enrich_worker_filled)
  have all: "length (filter P xs) = length xs \<longleftrightarrow> (\<forall>x \<in> set xs. P x)" for P and xs :: "'a pool_process list"
    by (metis filter_True length_filter_less nat_less_le)
  have "snd (enrichWorkerRSS h snap p) = Some LogWarn \<longleftrightarrow>
      length (filter (\<lambda>w. enrich_worker h snap w = None) (po_Processes p)) = length (po_Processes p) \<and> po_Processes p \<noteq> []"
    by (auto simp: enrichWorkerRSS_def Let_def filter_map o_def)
  then show "snd (enrichWorkerRSS h snap p) = Some LogWarn \<longleftrightarrow>
      po_Processes p \<noteq> [] \<and> list_all (\<lambda>w. 0 < pp_PID w \<and> readable_rss h (pp_PID w) = None) (po_Processes p)"
    unfolding all enrich_worker_None list_all_iff by blast
qed

section \<open>Reading the proportional set size\<close>

text \<open>The line of a \<^verbatim>\<open>smaps_rollup\<close> that carries the total.\<close>

definition pss_line :: "string \<Rightarrow> nat \<Rightarrow> string" where
  "pss_line pad kb = ''Pss:'' @ pad @ digits_of kb @ '' kB''"

lemma parsePSSLines_skip:
  "\<forall>l \<in> set ls. \<not> has_prefix l ''Pss:'' \<Longrightarrow> parsePSSLines (ls @ ls') = parsePSSLines ls'"
  by (induction ls) simp_all

lemma parsePSSLines_line:
  assumes "\<forall>c \<in> set pad. blank c" and "kb < 2 ^ 63"
  shows "parsePSSLines (pss_line pad kb # ls) = word_of_nat kb * 1024"
proof -
  have "int kb < 2 ^ 63" using assms(2) by (metis of_nat_less_iff of_nat_numeral of_nat_power)
  then have "parse_int64 (digits_of kb) = (int kb, None)"
    using parse_int64_itoa [of "int kb"] by (simp add: itoa_def)
  moreover obtain fs where "go_fields (pad @ digits_of kb @ CHR '' '' # ''kB'') = digits_of kb # fs"
    using go_fields_first [of pad "digits_of kb" "CHR '' ''" "''kB''"] assms(1) digits_of_hd [of kb]
    by (auto simp: blank_def digit_visible digits_of_digit)
  ultimately show ?thesis by (simp add: pss_line_def)
qed

text \<open>
  From a \<^verbatim>\<open>smaps_rollup\<close> the value read is the one on the bare \<^verbatim>\<open>Pss:\<close> line, in bytes, whatever
  lines stand around it; the breakdown lines (\<^verbatim>\<open>Pss_Anon:\<close> and the like) are not taken for it.
\<close>

theorem parsePSSBytes_rollup:
  assumes "\<forall>l \<in> set before. newline \<notin> set l \<and> \<not> has_prefix l ''Pss:''" and "\<forall>l \<in> set after. newline \<notin> set l"
    and "\<forall>c \<in> set pad. blank c" and "kb < 2 ^ 63"
  shows "parsePSSBytes (unlines (before @ pss_line pad kb # after)) = word_of_nat kb * 1024"
proof -
  have "digit_val newline = None" and "\<not> blank newline" by code_simp+
  then have "newline \<notin> set (digits_of kb)" and "newline \<notin> set pad"
    using digits_of_digit [of newline kb] assms(3) by blast+
  then have "newline \<notin> set (pss_line pad kb)" by (simp add: pss_line_def)
  then have "split_byte newline (unlines (before @ pss_line pad kb # after)) = before @ pss_line pad kb # after @ [[]]"
    using split_unlines [of "before @ pss_line pad kb # after"] assms by auto
  then show ?thesis
    using assms(1) parsePSSLines_line [OF assms(3,4)]
    by (simp del: parsePSSLines.simps add: parsePSSBytes_def parsePSSLines_skip)
qed

theorem parsePSSBytes_rollup_witness:
  "parsePSSBytes (unlines [''Rss: 9 kB'', pss_line ''  '' 3, ''Pss_Anon: 2 kB'']) = 3072"
  using parsePSSBytes_rollup [of "[''Rss: 9 kB'']" "[''Pss_Anon: 2 kB'']" "''  ''" 3]
  by (simp add: blank_def)

text \<open>A worker with two descendants, one of which claims the worker's parent as its child.\<close>

definition tree_proc :: "int \<Rightarrow> int \<Rightarrow> uint64 \<Rightarrow> proc_handle" where
  "tree_proc pid ppid rss =
     \<lparr>p_pid = pid, p_name = Inr ''x'', p_cmdline = Inr ''x'', p_exe = Inr ''/x'', p_ppid = Inr ppid,
      p_memory = Inr (Some rss), p_create_time = Inr 1\<rparr>"

definition tree_host :: host where
  "tree_host = demo_host\<lparr>h_processes := Inr [tree_proc 10 12 100, tree_proc 11 10 20, tree_proc 12 11 3]\<rparr>"

theorem subtreeRSS_exact_witness:
  "(\<Sum>q \<in> descendants [tree_proc 10 12 100, tree_proc 11 10 20, tree_proc 12 11 3] 64 10.
      table_rss [tree_proc 10 12 100, tree_proc 11 10 20, tree_proc 12 11 3] q) = 123"
proof -
  let ?ps = "[tree_proc 10 12 100, tree_proc 11 10 20, tree_proc 12 11 3]"
  have "h_processes tree_host = Inr ?ps" and "distinct (map p_pid ?ps)"
    by (simp_all add: tree_host_def tree_proc_def)
  from subtreeRSS_exact [OF this, of 10] have
      "(\<Sum>q \<in> descendants ?ps 64 10. table_rss ?ps q) = subtreeRSS (snapshot_of ?ps) 10"
    by (auto simp: snapshotProcesses_def tree_host_def)
  also have "\<dots> = 123" by code_simp
  finally show ?thesis .
qed

end
