(* ===== verification/Info.thy ===== *)
theory Info
  imports Pool_Types
begin

text \<open>
  \<^verbatim>\<open>info.go\<close>: reading a binary's version and extensions, and the cache in front of it. Callers that
  miss the cache coalesce onto one lookup per binary. The two critical sections under \<^verbatim>\<open>phpInfoMu\<close>
  are \<open>stats_enter\<close> and \<open>stats_store\<close>; \<open>GetPHPStats\<close> is one call, and \<open>info_step\<close> is any number of
  calls cut at the points where the lock is released, with a clock that may stand anywhere. Values are
  copied, so \<^verbatim>\<open>clone\<close> is the identity here.
\<close>

section \<open>Reading a binary\<close>

definition getPHPVersion :: "host \<Rightarrow> string \<Rightarrow> (bounded_error + string) \<times> exec_call list" where
  "getPHPVersion h bin =
     (case runBounded h bin [''-v''] of
        ((out, Some e), ex) \<Rightarrow> (Inl e, ex)
      | ((out, None), ex) \<Rightarrow>
          (Inr (case split_byte newline out of l # _ \<Rightarrow> trim_space l | [] \<Rightarrow> ''unknown''), ex))"

definition getPHPExtensions :: "host \<Rightarrow> string \<Rightarrow> (bounded_error + string list) \<times> exec_call list" where
  "getPHPExtensions h bin =
     (case runBounded h bin [''-m''] of
        ((out, Some e), ex) \<Rightarrow> (Inl e, ex)
      | ((out, None), ex) \<Rightarrow>
          (Inr (filter (\<lambda>l. l \<noteq> [] \<and> \<not> has_prefix l ''['') (map trim_space (split_byte newline out))), ex))"

datatype info_error = ReadFailed bounded_error | WaitEnded string

type_synonym info_result = "info_error + php_info"

definition readPHPInfo :: "host \<Rightarrow> string \<Rightarrow> info_result \<times> exec_call list" where
  "readPHPInfo h bin =
     (case getPHPVersion h bin of
        (Inl e, ex) \<Rightarrow> (Inl (ReadFailed e), ex)
      | (Inr version, ex) \<Rightarrow>
          (case getPHPExtensions h bin of
             (Inl e, ex') \<Rightarrow> (Inl (ReadFailed e), ex @ ex')
           | (Inr ext, ex') \<Rightarrow> (Inr \<lparr>pi_Version = version, pi_Extensions = ext\<rparr>, ex @ ex')))"

section \<open>The cache\<close>

text \<open>Nanoseconds, as Go's \<^verbatim>\<open>time.Duration\<close>.\<close>

definition phpInfoTTL :: int where
  "phpInfoTTL = 3600 * 1000000000"

definition phpInfoFailureTTL :: int where
  "phpInfoFailureTTL = 60 * 1000000000"

record php_info_entry =
  pe_result :: info_result
  pe_expiresAt :: int

text \<open>A call in flight is known by a number; \<open>is_next\<close> is the first one not used yet.\<close>

record info_state =
  is_cache :: "php_info_entry gomap"
  is_inFlight :: "nat gomap"
  is_next :: nat

definition empty_info :: info_state where
  "empty_info = \<lparr>is_cache = [], is_inFlight = [], is_next = 0\<rparr>"

definition resetPHPInfoCache :: "info_state \<Rightarrow> info_state" where
  "resetPHPInfoCache st = st\<lparr>is_cache := [], is_inFlight := []\<rparr>"

datatype entered = Hit info_result | Join nat | Lead nat info_state

text \<open>The first critical section: a live entry, a call to wait for, or a new call to lead.\<close>

definition stats_enter :: "int \<Rightarrow> string \<Rightarrow> info_state \<Rightarrow> entered" where
  "stats_enter now bin st =
     (let miss =
        (case map_of (is_inFlight st) bin of
           Some c \<Rightarrow> Join c
         | None \<Rightarrow> Lead (is_next st)
             (st\<lparr>is_inFlight := AList.update bin (is_next st) (is_inFlight st), is_next := is_next st + 1\<rparr>))
      in case map_of (is_cache st) bin of
           Some e \<Rightarrow> if now < pe_expiresAt e then Hit (pe_result e) else miss
         | None \<Rightarrow> miss)"

definition info_ttl :: "info_result \<Rightarrow> int" where
  "info_ttl r = (case r of Inl _ \<Rightarrow> phpInfoFailureTTL | Inr _ \<Rightarrow> phpInfoTTL)"

text \<open>The second critical section.\<close>

definition stats_store :: "int \<Rightarrow> string \<Rightarrow> info_result \<Rightarrow> info_state \<Rightarrow> info_state" where
  "stats_store now bin r st =
     st\<lparr>is_cache := AList.update bin \<lparr>pe_result = r, pe_expiresAt = now + info_ttl r\<rparr> (is_cache st),
        is_inFlight := AList.delete bin (is_inFlight st)\<rparr>"

text \<open>One call. It starts on host \<open>h\<close> and stores its result on host \<open>h'\<close>; \<open>await\<close> is what
  waiting for somebody else's call ends with, that call's result or the error of the context.\<close>

definition GetPHPStats ::
  "host \<Rightarrow> host \<Rightarrow> (nat \<Rightarrow> info_result) \<Rightarrow> target \<Rightarrow> info_state
     \<Rightarrow> info_result \<times> info_state \<times> exec_call list" where
  "GetPHPStats h h' await tgt st =
     (case stats_enter (h_now h) (t_Binary tgt) st of
        Hit r \<Rightarrow> (r, st, [])
      | Join c \<Rightarrow> (await c, st, [])
      | Lead c st1 \<Rightarrow>
          (case readPHPInfo h (t_Binary tgt) of (r, ex) \<Rightarrow>
             (r, stats_store (h_now h') (t_Binary tgt) r st1, ex)))"

section \<open>Callers side by side\<close>

datatype caller =
    Calling string
  | Waiting string nat
  | Leading string nat
  | Closing string nat info_result
  | Returned string info_result

text \<open>The shared state, the results of the calls whose channel is closed, and the callers.\<close>

record info_world =
  iw_state :: info_state
  iw_done :: "nat \<rightharpoonup> info_result"
  iw_callers :: "nat \<rightharpoonup> caller"

definition info_start :: info_world where
  "info_start = \<lparr>iw_state = empty_info, iw_done = Map.empty, iw_callers = Map.empty\<rparr>"

abbreviation set_caller :: "nat \<Rightarrow> caller \<Rightarrow> info_world \<Rightarrow> info_world" where
  "set_caller i t w \<equiv> w\<lparr>iw_callers := (iw_callers w)(i \<mapsto> t)\<rparr>"

text \<open>\<open>H\<close> are the states of the host that the lookups of the run meet.\<close>

inductive info_step :: "host set \<Rightarrow> info_world \<Rightarrow> info_world \<Rightarrow> bool" for H where
  call: "iw_callers w i = None \<Longrightarrow> info_step H w (set_caller i (Calling bin) w)"
| hit: "iw_callers w i = Some (Calling bin) \<Longrightarrow> stats_enter now bin (iw_state w) = Hit r \<Longrightarrow>
    info_step H w (set_caller i (Returned bin r) w)"
| join: "iw_callers w i = Some (Calling bin) \<Longrightarrow> stats_enter now bin (iw_state w) = Join c \<Longrightarrow>
    info_step H w (set_caller i (Waiting bin c) w)"
| lead: "iw_callers w i = Some (Calling bin) \<Longrightarrow> stats_enter now bin (iw_state w) = Lead c st \<Longrightarrow>
    info_step H w (set_caller i (Leading bin c) (w\<lparr>iw_state := st\<rparr>))"
| store: "iw_callers w i = Some (Leading bin c) \<Longrightarrow> h \<in> H \<Longrightarrow> fst (readPHPInfo h bin) = r \<Longrightarrow>
    info_step H w (set_caller i (Closing bin c r) (w\<lparr>iw_state := stats_store now bin r (iw_state w)\<rparr>))"
| closed: "iw_callers w i = Some (Closing bin c r) \<Longrightarrow>
    info_step H w (set_caller i (Returned bin r) (w\<lparr>iw_done := (iw_done w)(c \<mapsto> r)\<rparr>))"
| wake: "iw_callers w i = Some (Waiting bin c) \<Longrightarrow> iw_done w c = Some r \<Longrightarrow>
    info_step H w (set_caller i (Returned bin r) w)"
| give_up: "iw_callers w i = Some (Waiting bin c) \<Longrightarrow>
    info_step H w (set_caller i (Returned bin (Inl (WaitEnded e))) w)"

abbreviation info_reachable :: "host set \<Rightarrow> info_world \<Rightarrow> bool" where
  "info_reachable H \<equiv> reachable (\<lambda>w. w = info_start) (info_step H)"

section \<open>The coalescing invariant\<close>

definition read_result :: "host set \<Rightarrow> string \<Rightarrow> info_result \<Rightarrow> bool" where
  "read_result H bin r \<longleftrightarrow> (\<exists>h \<in> H. fst (readPHPInfo h bin) = r)"

text \<open>The callers that lead, with their binary and their call. They are in step with the table of calls
  in flight: every entry has a leader, every leader its entry, and no two lead for one binary.\<close>

fun leading_of :: "caller \<Rightarrow> (string \<times> nat) option" where
  "leading_of (Leading bin c) = Some (bin, c)"
| "leading_of _ = None"

definition leaders :: "info_world \<Rightarrow> nat \<rightharpoonup> string \<times> nat" where
  "leaders w i = Option.bind (iw_callers w i) leading_of"

definition in_step :: "(string \<rightharpoonup> nat) \<Rightarrow> (nat \<rightharpoonup> string \<times> nat) \<Rightarrow> bool" where
  "in_step F L \<longleftrightarrow>
     (\<forall>bin c. F bin = Some c \<longrightarrow> (\<exists>i. L i = Some (bin, c))) \<and>
     (\<forall>i bin c. L i = Some (bin, c) \<longrightarrow> F bin = Some c) \<and>
     (\<forall>i j bin c c'. L i = Some (bin, c) \<and> L j = Some (bin, c') \<longrightarrow> i = j)"

abbreviation leaders_ok :: "info_world \<Rightarrow> bool" where
  "leaders_ok w \<equiv> in_step (map_of (is_inFlight (iw_state w))) (leaders w)"

text \<open>A call is being served when it is over, being closed, or being led; a caller that waits has one
  that is.\<close>

fun working_on :: "caller \<Rightarrow> (string \<times> nat) option" where
  "working_on (Leading bin c) = Some (bin, c)"
| "working_on (Closing bin c r) = Some (bin, c)"
| "working_on _ = None"

definition served :: "info_world \<Rightarrow> string \<Rightarrow> nat \<Rightarrow> bool" where
  "served w bin c \<longleftrightarrow> iw_done w c \<noteq> None \<or> (\<exists>j t. iw_callers w j = Some t \<and> working_on t = Some (bin, c))"

definition waiters_ok :: "info_world \<Rightarrow> bool" where
  "waiters_ok w \<longleftrightarrow> (\<forall>i bin c. iw_callers w i = Some (Waiting bin c) \<longrightarrow> served w bin c)"

text \<open>Every call belongs to one binary, and every result to the binary it was read from.\<close>

fun caller_ok :: "host set \<Rightarrow> (nat \<Rightarrow> string) \<Rightarrow> nat \<Rightarrow> caller \<Rightarrow> bool" where
  "caller_ok H owner n (Calling bin) = True"
| "caller_ok H owner n (Waiting bin c) = (owner c = bin \<and> c < n)"
| "caller_ok H owner n (Leading bin c) = (owner c = bin \<and> c < n)"
| "caller_ok H owner n (Closing bin c r) = (owner c = bin \<and> c < n \<and> read_result H bin r)"
| "caller_ok H owner n (Returned bin r) = (read_result H bin r \<or> (\<exists>e. r = Inl (WaitEnded e)))"

definition results_ok :: "host set \<Rightarrow> (nat \<Rightarrow> string) \<Rightarrow> info_world \<Rightarrow> bool" where
  "results_ok H owner w \<longleftrightarrow>
     (\<forall>bin e. map_of (is_cache (iw_state w)) bin = Some e \<longrightarrow> read_result H bin (pe_result e)) \<and>
     (\<forall>bin c. map_of (is_inFlight (iw_state w)) bin = Some c \<longrightarrow> owner c = bin \<and> c < is_next (iw_state w)) \<and>
     (\<forall>c r. iw_done w c = Some r \<longrightarrow> read_result H (owner c) r \<and> c < is_next (iw_state w)) \<and>
     (\<forall>i t. iw_callers w i = Some t \<longrightarrow> caller_ok H owner (is_next (iw_state w)) t)"

lemma stats_enter_Hit:
  "stats_enter now bin st = Hit r \<longleftrightarrow> (\<exists>e. map_of (is_cache st) bin = Some e \<and> now < pe_expiresAt e \<and> r = pe_result e)"
  by (auto simp: stats_enter_def Let_def split: option.splits)

lemma stats_enter_Join: "stats_enter now bin st = Join c \<Longrightarrow> map_of (is_inFlight st) bin = Some c"
  by (auto simp: stats_enter_def Let_def split: option.splits if_splits)

lemma stats_enter_Lead:
  "stats_enter now bin st = Lead c st' \<Longrightarrow>
     map_of (is_inFlight st) bin = None \<and> c = is_next st \<and> is_next st' = Suc (is_next st) \<and>
     is_cache st' = is_cache st \<and> map_of (is_inFlight st') = (map_of (is_inFlight st))(bin \<mapsto> is_next st)"
  by (auto simp: stats_enter_def Let_def update_conv' split: option.splits if_splits)

lemma leaders_update [simp]:
  "leaders (w\<lparr>iw_callers := (iw_callers w)(i \<mapsto> t)\<rparr>) = (leaders w)(i := leading_of t)"
  "leaders (w\<lparr>iw_state := st, iw_callers := (iw_callers w)(i \<mapsto> t)\<rparr>) = (leaders w)(i := leading_of t)"
  "leaders (w\<lparr>iw_done := d, iw_callers := (iw_callers w)(i \<mapsto> t)\<rparr>) = (leaders w)(i := leading_of t)"
  by (auto simp: leaders_def)

lemma leaders_None: "iw_callers w i = Some t \<Longrightarrow> leading_of t = None \<Longrightarrow> leaders w i = None"
  by (simp add: leaders_def)

lemma in_stepD:
  assumes "in_step F L"
  shows "F bin = Some c \<Longrightarrow> \<exists>i. L i = Some (bin, c)" and "L i = Some (bin, c) \<Longrightarrow> F bin = Some c"
    and "L i = Some (bin, c) \<Longrightarrow> L j = Some (bin, c') \<Longrightarrow> i = j"
  using assms unfolding in_step_def by blast+

lemma in_stepI:
  assumes "\<And>bin c. F bin = Some c \<Longrightarrow> \<exists>i. L i = Some (bin, c)" and "\<And>i bin c. L i = Some (bin, c) \<Longrightarrow> F bin = Some c"
    and "\<And>i j bin c c'. L i = Some (bin, c) \<Longrightarrow> L j = Some (bin, c') \<Longrightarrow> i = j"
  shows "in_step F L"
  using assms unfolding in_step_def by blast

lemma in_step_add:
  assumes "in_step F L" and "F bin = None" and "L i = None"
  shows "in_step (F(bin \<mapsto> c)) (L(i \<mapsto> (bin, c)))"
proof (rule in_stepI)
  have other: "L j \<noteq> Some (bin, k)" for j k using in_stepD(2) [OF assms(1), of j bin k] assms(2) by auto
  show "\<exists>j. (L(i \<mapsto> (bin, c))) j = Some (b, k)" if "(F(bin \<mapsto> c)) b = Some k" for b k
  proof (cases "b = bin")
    case False
    with that obtain j where "L j = Some (b, k)" using in_stepD(1) [OF assms(1), of b k] by auto
    with assms(3) have "(L(i \<mapsto> (bin, c))) j = Some (b, k)" by auto
    then show ?thesis ..
  qed (use that in \<open>auto intro: exI [of _ i]\<close>)
  show "(F(bin \<mapsto> c)) b = Some k" if "(L(i \<mapsto> (bin, c))) j = Some (b, k)" for j b k
    using that other [of j k] in_stepD(2) [OF assms(1), of j b k] by (auto split: if_splits)
  show "j = j'" if "(L(i \<mapsto> (bin, c))) j = Some (b, k)" "(L(i \<mapsto> (bin, c))) j' = Some (b, k')" for j j' b k k'
    using that other [of j k] other [of j' k'] in_stepD(3) [OF assms(1), of j b k j' k'] by (auto split: if_splits)
qed

lemma in_step_remove:
  assumes "in_step F L" and "L i = Some (bin, c)"
  shows "in_step (F(bin := None)) (L(i := None))"
proof (rule in_stepI)
  show "\<exists>j. (L(i := None)) j = Some (b, k)" if "(F(bin := None)) b = Some k" for b k
  proof -
    from that have "b \<noteq> bin" and "F b = Some k" by (auto split: if_splits)
    then obtain j where j: "L j = Some (b, k)"
      using in_stepD(1) [OF assms(1), of b k] by auto
    with assms(2) \<open>b \<noteq> bin\<close> have "j \<noteq> i" by auto
    with j have "(L(i := None)) j = Some (b, k)" by simp
    then show ?thesis ..
  qed
  show "(F(bin := None)) b = Some k" if "(L(i := None)) j = Some (b, k)" for j b k
    using that in_stepD(2) [OF assms(1), of j b k] in_stepD(3) [OF assms(1,2), of j k] by (auto split: if_splits)
  show "j = j'" if "(L(i := None)) j = Some (b, k)" "(L(i := None)) j' = Some (b, k')" for j j' b k k'
    using that in_stepD(3) [OF assms(1), of j b k j' k'] by (auto split: if_splits)
qed

lemma in_step_same: "L i = None \<Longrightarrow> in_step F (L(i := None)) = in_step F L"
  by (simp add: fun_upd_idem)

lemma leaders_step: "info_step H w w' \<Longrightarrow> leaders_ok w \<Longrightarrow> leaders_ok w'"
proof (induction rule: info_step.induct)
  case (call w i bin)
  then show ?case by (simp add: fun_upd_idem leaders_def)
next
  case (lead w i bin now c st)
  then have "in_step (map_of (is_inFlight st)) ((leaders w)(i \<mapsto> (bin, c)))"
    using stats_enter_Lead [OF lead(2)] in_step_add [OF lead(3), of bin i c] leaders_None [OF lead(1)]
    by (simp only: leading_of.simps)
  moreover have "leaders (set_caller i (Leading bin c) (w\<lparr>iw_state := st\<rparr>)) = (leaders w)(i \<mapsto> (bin, c))"
    and "iw_state (set_caller i (Leading bin c) (w\<lparr>iw_state := st\<rparr>)) = st"
    by (auto simp: leaders_def)
  ultimately show ?case by (simp only:)
next
  case (store w i bin c h r now)
  have "leaders w i = Some (bin, c)" using store(1) by (simp add: leaders_def)
  from in_step_remove [OF store(4) this] have
    "in_step (map_of (AList.delete bin (is_inFlight (iw_state w)))) ((leaders w)(i := None))"
    by (simp only: delete_conv')
  moreover have "leaders (set_caller i (Closing bin c r) (w\<lparr>iw_state := stats_store now bin r (iw_state w)\<rparr>)) =
      (leaders w)(i := None)"
    and "is_inFlight (iw_state (set_caller i (Closing bin c r) (w\<lparr>iw_state := stats_store now bin r (iw_state w)\<rparr>))) =
      AList.delete bin (is_inFlight (iw_state w))"
    by (auto simp: leaders_def stats_store_def)
  ultimately show ?case by (simp only:)
qed (simp_all add: in_step_same leaders_None)

lemma served_at: "iw_callers w j = Some t \<Longrightarrow> working_on t = Some (bin, c) \<Longrightarrow> served w bin c"
  unfolding served_def by blast

text \<open>Every step moves one caller, keeps closed channels closed, and drops a call only by closing it.\<close>

lemma info_step_shape:
  "info_step H w w' \<Longrightarrow>
   \<exists>i t'. iw_callers w' = (iw_callers w)(i \<mapsto> t') \<and> dom (iw_done w) \<subseteq> dom (iw_done w') \<and>
     (case iw_callers w i of None \<Rightarrow> True
      | Some t \<Rightarrow> working_on t = None \<or> working_on t = working_on t' \<or>
          (\<exists>b k. working_on t = Some (b, k) \<and> k \<in> dom (iw_done w')))"
proof (induction rule: info_step.induct)
  case (call w i bin)
  then show ?case by (intro exI [of _ i] exI [of _ "Calling bin"]) simp
next
  case (hit w i bin now r)
  then show ?case by (intro exI [of _ i] exI [of _ "Returned bin r"]) simp
next
  case (join w i bin now c)
  then show ?case by (intro exI [of _ i] exI [of _ "Waiting bin c"]) simp
next
  case (lead w i bin now c st)
  then show ?case by (intro exI [of _ i] exI [of _ "Leading bin c"]) simp
next
  case (store w i bin c h r now)
  then show ?case by (intro exI [of _ i] exI [of _ "Closing bin c r"]) simp
next
  case (closed w i bin c r)
  then show ?case by (intro exI [of _ i] exI [of _ "Returned bin r"]) auto
next
  case (wake w i bin c r)
  then show ?case by (intro exI [of _ i] exI [of _ "Returned bin r"]) simp
next
  case (give_up w i bin c e)
  then show ?case by (intro exI [of _ i] exI [of _ "Returned bin (Inl (WaitEnded e))"]) simp
qed

lemma served_step:
  assumes "info_step H w w'" and "served w bin c"
  shows "served w' bin c"
proof -
  obtain i t' where w': "iw_callers w' = (iw_callers w)(i \<mapsto> t')" and dom: "dom (iw_done w) \<subseteq> dom (iw_done w')"
    and work: "case iw_callers w i of None \<Rightarrow> True
      | Some t \<Rightarrow> working_on t = None \<or> working_on t = working_on t' \<or>
          (\<exists>b k. working_on t = Some (b, k) \<and> k \<in> dom (iw_done w'))"
    using info_step_shape [OF assms(1)] by blast
  from assms(2) consider "c \<in> dom (iw_done w)" | j t where "iw_callers w j = Some t" "working_on t = Some (bin, c)"
    unfolding served_def by blast
  then show ?thesis
  proof cases
    case 1
    with dom show ?thesis by (auto simp: served_def)
  next
    case (2 j t)
    show ?thesis
    proof (cases "j = i")
      case True
      with 2 work have "working_on t' = Some (bin, c) \<or> c \<in> dom (iw_done w')" by auto
      then show ?thesis using w' served_at [of w' i t'] by (auto simp: served_def)
    next
      case False
      with 2 w' served_at [of w' j t] show ?thesis by simp
    qed
  qed
qed

lemma leader_served:
  assumes "leaders_ok w" and "map_of (is_inFlight (iw_state w)) bin = Some c"
  shows "served w bin c"
proof -
  obtain j where "leaders w j = Some (bin, c)" using assms unfolding in_step_def by blast
  then obtain t where "iw_callers w j = Some t" and "leading_of t = Some (bin, c)"
    by (auto simp: leaders_def bind_eq_Some_conv)
  then show ?thesis by (cases t) (auto intro: served_at)
qed

lemma new_waiter:
  "info_step H w w' \<Longrightarrow> iw_callers w' i = Some (Waiting bin c) \<Longrightarrow>
   iw_callers w i = Some (Waiting bin c) \<or> map_of (is_inFlight (iw_state w)) bin = Some c"
  by (induction rule: info_step.induct) (auto split: if_splits dest: stats_enter_Join)

lemma waiters_step:
  assumes "info_step H w w'" and "leaders_ok w" and "waiters_ok w"
  shows "waiters_ok w'"
  using new_waiter [OF assms(1)] served_step [OF assms(1)] leader_served [OF assms(2)] assms(3)
  unfolding waiters_ok_def by blast

lemma results_caller:
  assumes "results_ok H owner w" and "caller_ok H owner (is_next (iw_state w)) t"
  shows "results_ok H owner (set_caller i t w)"
  using assms by (auto simp: results_ok_def)

lemma caller_ok_lead:
  assumes "caller_ok H owner n t"
  shows "caller_ok H (owner(n := bin)) (Suc n) t"
  using assms by (cases t) auto

lemma results_lead:
  assumes "results_ok H owner w" and "stats_enter now bin (iw_state w) = Lead c st"
  shows "results_ok H (owner(c := bin)) (set_caller i (Leading bin c) (w\<lparr>iw_state := st\<rparr>))"
proof -
  note st = stats_enter_Lead [OF assms(2)]
  have "caller_ok H (owner(c := bin)) (is_next st) t" if "iw_callers w j = Some t" for j t
    using that assms(1) st caller_ok_lead [of H owner "is_next (iw_state w)" t bin] by (auto simp: results_ok_def)
  moreover have "owner k = b \<and> k < is_next (iw_state w)" if "map_of (is_inFlight (iw_state w)) b = Some k" for b k
    using that assms(1) by (auto simp: results_ok_def)
  moreover have "read_result H (owner k) r \<and> k < is_next (iw_state w)" if "iw_done w k = Some r" for k r
    using that assms(1) by (auto simp: results_ok_def)
  ultimately show ?thesis
    using assms(1) st unfolding results_ok_def
    by (auto split: if_splits dest!: less_SucI)
qed

lemma results_step: "info_step H w w' \<Longrightarrow> results_ok H owner w \<Longrightarrow> \<exists>owner'. results_ok H owner' w'"
proof (induction rule: info_step.induct)
  case (lead w i bin now c st)
  then show ?case using results_lead by blast
next
  case (store w i bin c h r now)
  have "caller_ok H owner (is_next (iw_state w)) (Leading bin c)"
    using store(1,4) unfolding results_ok_def by blast
  moreover have "read_result H bin r" using store(2,3) by (auto simp: read_result_def)
  ultimately have "results_ok H owner (set_caller i (Closing bin c r) (w\<lparr>iw_state := stats_store now bin r (iw_state w)\<rparr>))"
    using store(4) by (auto simp: results_ok_def stats_store_def update_conv' delete_conv')
  then show ?case by blast
next
  case (closed w i bin c r)
  have "caller_ok H owner (is_next (iw_state w)) (Closing bin c r)"
    using closed unfolding results_ok_def by blast
  then have "results_ok H owner (set_caller i (Returned bin r) (w\<lparr>iw_done := (iw_done w)(c \<mapsto> r)\<rparr>))"
    using closed(2) by (auto simp: results_ok_def)
  then show ?case by blast
next
  case (wake w i bin c r)
  have "caller_ok H owner (is_next (iw_state w)) (Waiting bin c)"
    using wake unfolding results_ok_def by blast
  then have "caller_ok H owner (is_next (iw_state w)) (Returned bin r)"
    using wake(2,3) unfolding results_ok_def by auto
  then show ?case using results_caller [OF wake(3)] by blast
next
  case (join w i bin now c)
  then have "caller_ok H owner (is_next (iw_state w)) (Waiting bin c)"
    using stats_enter_Join [OF join(2)] unfolding results_ok_def by auto
  then show ?case using results_caller [OF join(3)] by blast
next
  case (hit w i bin now r)
  then have "caller_ok H owner (is_next (iw_state w)) (Returned bin r)"
    unfolding stats_enter_Hit results_ok_def by auto
  then show ?case using results_caller [OF hit(3)] by blast
qed (rule exI, rule results_caller, assumption, simp)+

interpretation info_system: invariant_system "\<lambda>w. w = info_start" "info_step H"
    "\<lambda>w. leaders_ok w \<and> waiters_ok w \<and> (\<exists>owner. results_ok H owner w)"
  for H
proof unfold_locales
  fix w w' assume "info_step H w w'" and "leaders_ok w \<and> waiters_ok w \<and> (\<exists>owner. results_ok H owner w)"
  then show "leaders_ok w' \<and> waiters_ok w' \<and> (\<exists>owner. results_ok H owner w')"
    using leaders_step waiters_step results_step by blast
qed (simp add: info_start_def empty_info_def in_step_def leaders_def waiters_ok_def results_ok_def)

text \<open>
  C16. Whatever callers there are and however they interleave: at most one of them reads a binary at any
  time; a caller that waits always waits for a call that is over or that another caller is still
  working on, so no wake-up is lost; and information returned for a binary is what reading that very
  binary gives on one of the hosts that the run has met. On a host that does not change it is the one
  result of reading that binary.
\<close>

theorem GetPHPStats_coalesces:
  assumes "info_reachable H w"
  shows "(\<forall>i j bin c c'. iw_callers w i = Some (Leading bin c) \<and> iw_callers w j = Some (Leading bin c') \<longrightarrow> i = j) \<and>
    (\<forall>i bin c. iw_callers w i = Some (Waiting bin c) \<longrightarrow>
       iw_done w c \<noteq> None \<or> (\<exists>j t. iw_callers w j = Some t \<and> working_on t = Some (bin, c))) \<and>
    (\<forall>i bin info. iw_callers w i = Some (Returned bin (Inr info)) \<longrightarrow> (\<exists>h \<in> H. fst (readPHPInfo h bin) = Inr info))"
proof (intro conjI allI impI)
  obtain owner where ok: "leaders_ok w" "waiters_ok w" "results_ok H owner w"
    using info_system.reachable_inv [OF assms] by blast
  show "i = j" if "iw_callers w i = Some (Leading bin c) \<and> iw_callers w j = Some (Leading bin c')" for i j bin c c'
    using that in_stepD(3) [OF ok(1), of i bin c j c'] by (simp add: leaders_def)
  show "iw_done w c \<noteq> None \<or> (\<exists>j t. iw_callers w j = Some t \<and> working_on t = Some (bin, c))"
    if "iw_callers w i = Some (Waiting bin c)" for i bin c
    using that ok(2) unfolding waiters_ok_def served_def by blast
  show "\<exists>h \<in> H. fst (readPHPInfo h bin) = Inr info" if "iw_callers w i = Some (Returned bin (Inr info))" for i bin info
  proof -
    have "caller_ok H owner (is_next (iw_state w)) (Returned bin (Inr info))"
      using that ok(3) unfolding results_ok_def by blast
    then show ?thesis by (simp add: read_result_def)
  qed
qed

section \<open>How long a result is kept\<close>

text \<open>
  What a leading call found, success or failure, answers every later call for that binary without
  executing anything until its lifetime is over (an hour, or a minute after a failure); the next call
  after that reads the binary again.
\<close>

theorem GetPHPStats_lifetime:
  assumes "stats_enter (h_now h) (t_Binary tgt) st = Lead c st1" and "GetPHPStats h h' await tgt st = (r, st', ex)"
    and "t_Binary tgt' = t_Binary tgt"
  shows "let expiry = h_now h' + (case r of Inl _ \<Rightarrow> phpInfoFailureTTL | Inr _ \<Rightarrow> phpInfoTTL) in
    (h_now g < expiry \<longrightarrow> GetPHPStats g g' await' tgt' st' = (r, st', [])) \<and>
    (expiry \<le> h_now g \<longrightarrow> fst (GetPHPStats g g' await' tgt' st') = fst (readPHPInfo g (t_Binary tgt)) \<and>
       snd (snd (GetPHPStats g g' await' tgt' st')) = snd (readPHPInfo g (t_Binary tgt)))"
proof -
  let ?b = "t_Binary tgt"
  have "map_of (is_cache st') ?b = Some \<lparr>pe_result = r, pe_expiresAt = h_now h' + info_ttl r\<rparr>"
    and "map_of (is_inFlight st') ?b = None"
    using assms(1,2) by (auto simp: GetPHPStats_def stats_store_def update_conv' delete_conv' split: prod.splits)
  then show ?thesis
    using assms(3)
    by (auto simp: GetPHPStats_def stats_enter_def Let_def info_ttl_def case_prod_unfold split: sum.splits)
qed

text \<open>A host whose php-fpm is killed because the caller's context has ended, and the same host for a caller
  with time to spare.\<close>

definition cancelled_host :: host where
  "cancelled_host = demo_host\<lparr>h_ctx_err := Some ''context deadline exceeded'',
     h_exec := (\<lambda>_ _. \<lparr>x_writes = [], x_exit = Some ''signal: killed''\<rparr>)\<rparr>"

definition patient_host :: host where
  "patient_host = demo_host\<lparr>h_now := 1, h_exec := (\<lambda>_ args.
     \<lparr>x_writes = [if args = [''-v''] then ''PHP 8.3.0'' else ''Core''], x_exit = None\<rparr>)\<rparr>"

definition demo_info_target :: target where
  "demo_info_target = \<lparr>t_Name = ''www'', t_Socket = ''/w.sock'', t_StatusSocket = [], t_StatusPath = ''/status'',
     t_ConfigPath = ''/etc/f.conf'', t_Binary = ''/usr/php-fpm'', t_MaxChildren = 5, t_ProcessManager = [],
     t_Workload = [], t_PID = 7, t_Timeout = 0\<rparr>"

lemma cancelled_call:
  "fst (GetPHPStats cancelled_host cancelled_host await demo_info_target empty_info) =
     Inl (ReadFailed (RunFailed (ExitError ''signal: killed'')))"
proof -
  have "fst (readPHPInfo cancelled_host ''/usr/php-fpm'') = Inl (ReadFailed (RunFailed (ExitError ''signal: killed'')))"
    by code_simp
  then show ?thesis
    by (simp add: GetPHPStats_def stats_enter_def empty_info_def demo_info_target_def case_prod_unfold)
qed

theorem GetPHPStats_lifetime_witness:
  "\<exists>st'. GetPHPStats patient_host patient_host (\<lambda>_. Inl (WaitEnded [])) demo_info_target st' =
     (Inl (ReadFailed (RunFailed (ExitError ''signal: killed''))), st', [])"
proof -
  let ?aw = "\<lambda>_. Inl (WaitEnded [])"
  obtain c st1 where lead: "stats_enter (h_now cancelled_host) (t_Binary demo_info_target) empty_info = Lead c st1"
    by (simp add: stats_enter_def empty_info_def)
  obtain st' ex where "GetPHPStats cancelled_host cancelled_host ?aw demo_info_target empty_info =
      (Inl (ReadFailed (RunFailed (ExitError ''signal: killed''))), st', ex)"
    using cancelled_call [of ?aw] by (metis prod.collapse fst_conv)
  from GetPHPStats_lifetime [OF lead this refl, of patient_host patient_host ?aw] show ?thesis
    by (auto simp: cancelled_host_def patient_host_def demo_host_def phpInfoFailureTTL_def)
qed

theorem GetPHPStats_coalesces_witness:
  "\<exists>w info. iw_callers w 1 = Some (Returned ''/usr/php-fpm'' (Inr info)) \<and> info_reachable {patient_host} w \<and>
     fst (readPHPInfo patient_host ''/usr/php-fpm'') = Inr info"
proof -
  let ?b = "''/usr/php-fpm''" and ?info = "\<lparr>pi_Version = ''PHP 8.3.0'', pi_Extensions = [''Core'']\<rparr>"
  let ?w2 = "info_start\<lparr>iw_callers := [0 \<mapsto> Calling ?b, 1 \<mapsto> Calling ?b]\<rparr>"
  have read: "fst (readPHPInfo patient_host ?b) = Inr ?info" by code_simp
  have "info_reachable {patient_host} (set_caller 0 (Calling ?b) info_start)"
    by (rule reachable.move [OF reachable_origin], rule info_step.call) (simp add: info_start_def)
  then have "info_reachable {patient_host} (set_caller 1 (Calling ?b) (set_caller 0 (Calling ?b) info_start))"
    by (rule reachable.move) (rule info_step.call, simp add: info_start_def)
  then have r2: "info_reachable {patient_host} ?w2" by (simp add: info_start_def)
  define st where "st = \<lparr>is_cache = [], is_inFlight = [(?b, 0)], is_next = 1\<rparr>"
  have lead: "stats_enter 0 ?b (iw_state ?w2) = Lead 0 st"
    by (simp add: stats_enter_def info_start_def empty_info_def st_def)
  let ?w3 = "set_caller 0 (Leading ?b 0) (?w2\<lparr>iw_state := st\<rparr>)"
  have r3: "info_reachable {patient_host} ?w3"
    by (rule reachable.move [OF r2], rule info_step.lead [OF _ lead]) simp
  let ?w4 = "set_caller 1 (Waiting ?b 0) ?w3"
  have r4: "info_reachable {patient_host} ?w4"
    by (rule reachable.move [OF r3], rule info_step.join [where now = 0]) (simp_all add: stats_enter_def st_def)
  let ?w5 = "set_caller 0 (Closing ?b 0 (Inr ?info)) (?w4\<lparr>iw_state := stats_store 0 ?b (Inr ?info) (iw_state ?w4)\<rparr>)"
  have r5: "info_reachable {patient_host} ?w5"
    by (rule reachable.move [OF r4], rule info_step.store [OF _ _ read]) simp_all
  let ?w6 = "set_caller 0 (Returned ?b (Inr ?info)) (?w5\<lparr>iw_done := (iw_done ?w5)(0 \<mapsto> Inr ?info)\<rparr>)"
  have r6: "info_reachable {patient_host} ?w6"
    by (rule reachable.move [OF r5], rule info_step.closed) simp
  let ?w7 = "set_caller 1 (Returned ?b (Inr ?info)) ?w6"
  have r7: "info_reachable {patient_host} ?w7"
    by (rule reachable.move [OF r6], rule info_step.wake [where c = 0]) simp_all
  moreover have one: "iw_callers ?w7 1 = Some (Returned ?b (Inr ?info))" by simp
  moreover from GetPHPStats_coalesces [OF r7] one have "fst (readPHPInfo patient_host ?b) = Inr ?info" by blast
  ultimately show ?thesis by blast
qed

text \<open>
  C38. A caller whose own context has ended leaves its failure behind for everyone: a later caller with
  time to spare, for whom the binary answers, is given the first caller's failure without the binary
  being tried.
\<close>

theorem GetPHPStats_inherits_impatience:
  "\<exists>h g tgt st' e info. h_ctx_err h \<noteq> None \<and> h_ctx_err g = None \<and>
     fst (readPHPInfo g (t_Binary tgt)) = Inr info \<and>
     (\<exists>ex. GetPHPStats h h (\<lambda>_. Inl (WaitEnded [])) tgt empty_info = (Inl e, st', ex)) \<and>
     GetPHPStats g g (\<lambda>_. Inl (WaitEnded [])) tgt st' = (Inl e, st', [])"
proof -
  let ?aw = "\<lambda>_. Inl (WaitEnded [])" and ?e = "ReadFailed (RunFailed (ExitError ''signal: killed''))"
  obtain st' ex where first: "GetPHPStats cancelled_host cancelled_host ?aw demo_info_target empty_info = (Inl ?e, st', ex)"
    using cancelled_call [of ?aw] by (metis prod.collapse fst_conv)
  then have "map_of (is_cache st') ''/usr/php-fpm'' = Some \<lparr>pe_result = Inl ?e, pe_expiresAt = phpInfoFailureTTL\<rparr>"
    by (auto simp: GetPHPStats_def stats_enter_def empty_info_def stats_store_def update_conv' info_ttl_def
        demo_info_target_def cancelled_host_def demo_host_def split: prod.splits)
  then have "GetPHPStats patient_host patient_host ?aw demo_info_target st' = (Inl ?e, st', [])"
    by (simp add: GetPHPStats_def stats_enter_def demo_info_target_def patient_host_def demo_host_def phpInfoFailureTTL_def)
  moreover have "fst (readPHPInfo patient_host (t_Binary demo_info_target)) =
      Inr \<lparr>pi_Version = ''PHP 8.3.0'', pi_Extensions = [''Core'']\<rparr>"
    by code_simp
  moreover have "h_ctx_err cancelled_host \<noteq> None" and "h_ctx_err patient_host = None"
    by (simp_all add: cancelled_host_def patient_host_def demo_host_def)
  ultimately show ?thesis using first by blast
qed

end
