(* ===== verification/Fcgi.thy ===== *)
theory Fcgi
  imports Pool_Types
begin

text \<open>
  The FastCGI client is a package of its own (\<^verbatim>\<open>github.com/cboxdk/fcgx\<close>). What the program uses of it
  is a parameter: dialling and a GET with an environment, each under a context, and reading the body of
  the response. Errors
  are texts. \<open>'r\<close> is the client's response, and the payload is what \<^verbatim>\<open>fcgx.ReadJSON\<close> decodes a full
  status page into: a pool, and the five fields whose absence the program has to notice.
\<close>

record 'f payload =
  pl_Pool :: "'f pool"
  pl_Active :: "int64 option"
  pl_Idle :: "int64 option"
  pl_Total :: "int64 option"
  pl_Queue :: "int64 option"
  pl_Workers :: "'f pool_process list option"

record ('r, 'f) fcgx =
  fc_dial :: "deadline \<Rightarrow> string \<Rightarrow> string \<Rightarrow> string option"
  fc_get :: "deadline \<Rightarrow> string \<Rightarrow> string \<Rightarrow> strmap \<Rightarrow> string + 'r"
  fc_read_body :: "'r \<Rightarrow> string + string"
  fc_read_json :: "'r \<Rightarrow> string + 'f payload"

definition serverSoftware :: string where
  "serverSoftware = ''cboxdk/phpfpm''"

end
