(* ===== verification/Opcache.thy ===== *)
theory Opcache
  imports Fcgi
begin

text \<open>
  \<^verbatim>\<open>opcache.go\<close>: the status script that PHP-FPM is asked to run, with the life cycle of its file, the
  probe that runs it, and the reading of the answer. The directory of temporary files is explicit, so
  that what happens to the script between two probes can be said. The answer is decoded as
  \<^verbatim>\<open>encoding/json\<close> decodes into a struct: keys are matched without regard to case, a repeated key
  wins over an earlier one, \<^verbatim>\<open>null\<close> leaves a plain field alone, and a value of the wrong type is an
  error. Turning the text into a JSON value, and a number's text into a float, are parameters.
\<close>

section \<open>The script file\<close>

definition opcacheScriptPrefix :: string where
  "opcacheScriptPrefix = ''cbox-phpfpm-opcache-''"

definition opcacheScriptContent :: string where
  "opcacheScriptContent =
     concat [''<?php'', [newline], ''error_reporting(0);'', [newline],
       ''ini_set('', [CHR 0x27], ''display_errors'', [CHR 0x27], '', 0);'', [newline],
       ''header('', [CHR 0x22], ''Status: 200 OK'', [CHR 0x22], '');'', [newline],
       ''header('', [CHR 0x22], ''Content-Type: application/json'', [CHR 0x22], '');'', [newline],
       ''echo json_encode(opcache_get_status(false));'', [newline], ''exit;'']"

record tmp_file =
  tf_content :: string
  tf_mode :: "32 word"

type_synonym tmp_dir = "string \<rightharpoonup> tmp_file"

text \<open>What the operating system answers while a script is looked for and written. \<open>io_stat\<close> is an error of
  \<^verbatim>\<open>os.Stat\<close> other than that the file is not there; \<open>io_create\<close> is the random part of
  the name that \<^verbatim>\<open>os.CreateTemp\<close> puts for the star; on a failed write \<open>io_wrote\<close> bytes are there.\<close>

record script_io =
  io_stat :: "os_error option"
  io_tempdir :: string
  io_create :: "os_error + string"
  io_write :: "os_error option"
  io_wrote :: nat
  io_chmod :: "os_error option"
  io_remove :: "os_error option"
  io_close :: "os_error option"

datatype script_error =
    CreateFailed os_error
  | WriteFailed os_error
  | ChmodFailed os_error
  | CloseFailed os_error

record script_state =
  ss_path :: string
  ss_err :: "script_error option"

definition script_name :: "script_io \<Rightarrow> string \<Rightarrow> string" where
  "script_name io rand = io_tempdir io @ ''/'' @ opcacheScriptPrefix @ rand @ ''.php''"

definition remove_file :: "script_io \<Rightarrow> string \<Rightarrow> tmp_dir \<Rightarrow> tmp_dir" where
  "remove_file io path fs = (if io_remove io = None then fs(path := None) else fs)"

text \<open>The deferred close: its error counts only when there is no earlier one.\<close>

definition close_script :: "script_io \<Rightarrow> script_state \<Rightarrow> script_state" where
  "close_script io st =
     (case io_close io of
        None \<Rightarrow> st
      | Some e \<Rightarrow> if ss_err st = None then st\<lparr>ss_err := Some (CloseFailed e)\<rparr> else st)"

text \<open>The function that writes the script, from \<^verbatim>\<open>CreateTemp\<close> on. A temporary file is created with
  mode 0600.\<close>

definition write_script :: "script_io \<Rightarrow> tmp_dir \<times> script_state \<Rightarrow> tmp_dir \<times> script_state" where
  "write_script io ds =
     (case ds of (fs, st) \<Rightarrow>
        case io_create io of
          Inl e \<Rightarrow> (fs, st\<lparr>ss_err := Some (CreateFailed e)\<rparr>)
        | Inr rand \<Rightarrow>
            let name = script_name io rand in
            (case io_write io of
               Some e \<Rightarrow>
                 (remove_file io name
                    (fs(name \<mapsto> \<lparr>tf_content = take (io_wrote io) opcacheScriptContent, tf_mode = 0x180\<rparr>)),
                  close_script io (st\<lparr>ss_err := Some (WriteFailed e)\<rparr>))
             | None \<Rightarrow>
                 (case io_chmod io of
                    Some e \<Rightarrow>
                      (remove_file io name (fs(name \<mapsto> \<lparr>tf_content = opcacheScriptContent, tf_mode = 0x180\<rparr>)),
                       close_script io (st\<lparr>ss_err := Some (ChmodFailed e)\<rparr>))
                  | None \<Rightarrow>
                      (fs(name \<mapsto> \<lparr>tf_content = opcacheScriptContent, tf_mode = 0x1A4\<rparr>),
                       close_script io (st\<lparr>ss_path := name\<rparr>)))))"

text \<open>The path and the error returned, and the directory and state after the call.\<close>

definition opcacheScript ::
  "script_io \<Rightarrow> tmp_dir \<times> script_state \<Rightarrow> (string \<times> script_error option) \<times> tmp_dir \<times> script_state" where
  "opcacheScript io ds =
     (case ds of (fs, st) \<Rightarrow>
        if ss_path st \<noteq> [] \<and> io_stat io = None \<and> fs (ss_path st) \<noteq> None then ((ss_path st, None), fs, st)
        else (case write_script io (fs, st\<lparr>ss_err := None\<rparr>) of (fs', st') \<Rightarrow>
                ((ss_path st', ss_err st'), fs', st')))"

definition RemoveOpcacheScript :: "script_io \<Rightarrow> tmp_dir \<times> script_state \<Rightarrow> tmp_dir \<times> script_state" where
  "RemoveOpcacheScript io ds =
     (case ds of (fs, st) \<Rightarrow>
        if ss_path st \<noteq> [] then (remove_file io (ss_path st) fs, st\<lparr>ss_path := []\<rparr>) else (fs, st))"

section \<open>The answer\<close>

datatype json = JNull | JBool bool | JNum string | JStr string | JArr "json list" | JObj "(string \<times> json) list"

text \<open>Decoding into a field: a plain \<^verbatim>\<open>uint64\<close>, an optional one, a float, a boolean.\<close>

definition dec_uint64 :: "json \<Rightarrow> uint64 \<Rightarrow> uint64 option" where
  "dec_uint64 j old =
     (case j of
        JNull \<Rightarrow> Some old
      | JNum s \<Rightarrow> (case parse_uint64 s of (n, None) \<Rightarrow> Some (word_of_int n) | _ \<Rightarrow> None)
      | _ \<Rightarrow> None)"

definition dec_uint64_ptr :: "json \<Rightarrow> uint64 option \<Rightarrow> uint64 option option" where
  "dec_uint64_ptr j old = (case j of JNull \<Rightarrow> Some None | _ \<Rightarrow> map_option Some (dec_uint64 j 0))"

definition dec_float :: "(string \<Rightarrow> 'f option) \<Rightarrow> json \<Rightarrow> 'f \<Rightarrow> 'f option" where
  "dec_float fl j old = (case j of JNull \<Rightarrow> Some old | JNum s \<Rightarrow> fl s | _ \<Rightarrow> None)"

definition dec_bool :: "json \<Rightarrow> bool \<Rightarrow> bool option" where
  "dec_bool j old = (case j of JNull \<Rightarrow> Some old | JBool b \<Rightarrow> Some b | _ \<Rightarrow> None)"

definition dec_bool_ptr :: "json \<Rightarrow> bool option \<Rightarrow> bool option option" where
  "dec_bool_ptr j old = (case j of JNull \<Rightarrow> Some None | JBool b \<Rightarrow> Some (Some b) | _ \<Rightarrow> None)"

text \<open>Decoding an object into a struct: one field after the other; a key that names no field is
  skipped.\<close>

fun dec_fields :: "(string \<Rightarrow> json \<Rightarrow> 's \<Rightarrow> 's option) \<Rightarrow> (string \<times> json) list \<Rightarrow> 's \<Rightarrow> 's option" where
  "dec_fields f [] s = Some s"
| "dec_fields f ((k, j) # kvs) s = (case f k j s of None \<Rightarrow> None | Some s' \<Rightarrow> dec_fields f kvs s')"

definition dec_struct :: "(string \<Rightarrow> json \<Rightarrow> 's \<Rightarrow> 's option) \<Rightarrow> json \<Rightarrow> 's \<Rightarrow> 's option" where
  "dec_struct f j s = (case j of JNull \<Rightarrow> Some s | JObj kvs \<Rightarrow> dec_fields f kvs s | _ \<Rightarrow> None)"

definition set_memory ::
  "(nat \<Rightarrow> nat) \<Rightarrow> (string \<Rightarrow> 'f option) \<Rightarrow> string \<Rightarrow> json \<Rightarrow> 'f memory \<Rightarrow> 'f memory option" where
  "set_memory sfold fl k j m =
     (if equal_fold sfold k ''used_memory'' then map_option (\<lambda>v. m\<lparr>UsedMemory := v\<rparr>) (dec_uint64 j (UsedMemory m))
      else if equal_fold sfold k ''free_memory'' then map_option (\<lambda>v. m\<lparr>FreeMemory := v\<rparr>) (dec_uint64 j (FreeMemory m))
      else if equal_fold sfold k ''wasted_memory'' then map_option (\<lambda>v. m\<lparr>WastedMemory := v\<rparr>) (dec_uint64 j (WastedMemory m))
      else if equal_fold sfold k ''current_wasted_percentage'' then
        map_option (\<lambda>v. m\<lparr>CurrentWastedPct := v\<rparr>) (dec_float fl j (CurrentWastedPct m))
      else Some m)"

definition set_stats ::
  "(nat \<Rightarrow> nat) \<Rightarrow> (string \<Rightarrow> 'f option) \<Rightarrow> string \<Rightarrow> json \<Rightarrow> 'f stats \<Rightarrow> 'f stats option" where
  "set_stats sfold fl k j s =
     (if equal_fold sfold k ''start_time'' then map_option (\<lambda>v. s\<lparr>st_StartTime := v\<rparr>) (dec_uint64_ptr j (st_StartTime s))
      else if equal_fold sfold k ''last_restart_time'' then
        map_option (\<lambda>v. s\<lparr>LastRestartTime := v\<rparr>) (dec_uint64_ptr j (LastRestartTime s))
      else if equal_fold sfold k ''num_cached_scripts'' then
        map_option (\<lambda>v. s\<lparr>NumCachedScripts := v\<rparr>) (dec_uint64 j (NumCachedScripts s))
      else if equal_fold sfold k ''hits'' then map_option (\<lambda>v. s\<lparr>Hits := v\<rparr>) (dec_uint64 j (Hits s))
      else if equal_fold sfold k ''misses'' then map_option (\<lambda>v. s\<lparr>Misses := v\<rparr>) (dec_uint64 j (Misses s))
      else if equal_fold sfold k ''blacklist_misses'' then
        map_option (\<lambda>v. s\<lparr>BlacklistMisses := v\<rparr>) (dec_uint64 j (BlacklistMisses s))
      else if equal_fold sfold k ''oom_restarts'' then map_option (\<lambda>v. s\<lparr>OomRestarts := v\<rparr>) (dec_uint64 j (OomRestarts s))
      else if equal_fold sfold k ''hash_restarts'' then map_option (\<lambda>v. s\<lparr>HashRestarts := v\<rparr>) (dec_uint64 j (HashRestarts s))
      else if equal_fold sfold k ''manual_restarts'' then
        map_option (\<lambda>v. s\<lparr>ManualRestarts := v\<rparr>) (dec_uint64 j (ManualRestarts s))
      else if equal_fold sfold k ''opcache_hit_rate'' then map_option (\<lambda>v. s\<lparr>HitRate := v\<rparr>) (dec_float fl j (HitRate s))
      else Some s)"

definition set_status ::
  "(nat \<Rightarrow> nat) \<Rightarrow> (string \<Rightarrow> 'f option) \<Rightarrow> string \<Rightarrow> json \<Rightarrow> 'f opcache_status \<Rightarrow> 'f opcache_status option" where
  "set_status sfold fl k j s =
     (if equal_fold sfold k ''opcache_enabled'' then map_option (\<lambda>v. s\<lparr>os_Enabled := v\<rparr>) (dec_bool j (os_Enabled s))
      else if equal_fold sfold k ''memory_usage'' then
        map_option (\<lambda>v. s\<lparr>MemoryUsage := v\<rparr>) (dec_struct (set_memory sfold fl) j (MemoryUsage s))
      else if equal_fold sfold k ''opcache_statistics'' then
        map_option (\<lambda>v. s\<lparr>Statistics := v\<rparr>) (dec_struct (set_stats sfold fl) j (Statistics s))
      else Some s)"

definition set_state :: "(nat \<Rightarrow> nat) \<Rightarrow> string \<Rightarrow> json \<Rightarrow> bool option \<Rightarrow> bool option option" where
  "set_state sfold k j s = (if equal_fold sfold k ''opcache_enabled'' then dec_bool_ptr j s else Some s)"

definition zero_status :: "'f \<Rightarrow> 'f opcache_status" where
  "zero_status z =
     \<lparr>os_Enabled = False,
      MemoryUsage = \<lparr>UsedMemory = 0, FreeMemory = 0, WastedMemory = 0, CurrentWastedPct = z\<rparr>,
      Statistics = \<lparr>st_StartTime = None, LastRestartTime = None, NumCachedScripts = 0, Hits = 0, Misses = 0,
        BlacklistMisses = 0, OomRestarts = 0, HashRestarts = 0, ManualRestarts = 0, HitRate = z\<rparr>\<rparr>"

text \<open>What the model leaves open about Go's library: the case-folding table, the text of a JSON value,
  and floats with their zero.\<close>

record 'f json_lib =
  jl_sfold :: "nat \<Rightarrow> nat"
  jl_text :: "string \<Rightarrow> json option"
  jl_float :: "string \<Rightarrow> 'f option"
  jl_zero :: 'f

datatype opcache_error =
    NoScript script_error
  | InvalidSocket address_error
  | DialFailed string
  | GetFailed string
  | BodyFailed string
  | BadJSON
  | NoCacheState

definition parseOpcacheStatus :: "'f json_lib \<Rightarrow> string \<Rightarrow> opcache_error + 'f opcache_status" where
  "parseOpcacheStatus jl body =
     (case jl_text jl body of
        None \<Rightarrow> Inl BadJSON
      | Some j \<Rightarrow>
          (case dec_struct (set_state (jl_sfold jl)) j None of
             None \<Rightarrow> Inl BadJSON
           | Some None \<Rightarrow> Inl NoCacheState
           | Some (Some _) \<Rightarrow>
               (case dec_struct (set_status (jl_sfold jl) (jl_float jl)) j (zero_status (jl_zero jl)) of
                  None \<Rightarrow> Inl BadJSON
                | Some status \<Rightarrow> Inr status)))"

definition opcache_env :: "string \<Rightarrow> strmap" where
  "opcache_env scriptPath =
     [(''SCRIPT_FILENAME'', scriptPath), (''SCRIPT_NAME'', ''/'' @ base scriptPath),
      (''SERVER_SOFTWARE'', serverSoftware), (''REMOTE_ADDR'', ''127.0.0.1'')]"

definition GetOpcacheStatus ::
  "'f json_lib \<Rightarrow> ('r, 'f) fcgx \<Rightarrow> script_io \<Rightarrow> deadline \<Rightarrow> target \<Rightarrow> tmp_dir \<times> script_state
     \<Rightarrow> (opcache_error + 'f opcache_status) \<times> tmp_dir \<times> script_state" where
  "GetOpcacheStatus jl fx io ctx tgt ds =
     (case opcacheScript io ds of ((tmpPath, err), ds') \<Rightarrow>
        ((case err of
            Some e \<Rightarrow> Inl (NoScript e)
          | None \<Rightarrow>
              (case ParseAddress (statusAddress tgt) [] of
                 Inl e \<Rightarrow> Inl (InvalidSocket e)
               | Inr (scheme, address, _) \<Rightarrow>
                   (case fc_dial fx ctx scheme address of
                      Some e \<Rightarrow> Inl (DialFailed e)
                    | None \<Rightarrow>
                        (case fc_get fx ctx scheme address (opcache_env tmpPath) of
                           Inl e \<Rightarrow> Inl (GetFailed e)
                         | Inr resp \<Rightarrow>
                             (case fc_read_body fx resp of
                                Inl e \<Rightarrow> Inl (BodyFailed e)
                              | Inr body \<Rightarrow> parseOpcacheStatus jl body))))), ds'))"

section \<open>The script over time\<close>

text \<open>\<^verbatim>\<open>os.CreateTemp\<close> makes a new file: the random part has no slash and the name is not in use, neither in
  the directory nor as the name of an earlier script.\<close>

definition io_fresh :: "script_io \<Rightarrow> tmp_dir \<times> script_state \<Rightarrow> bool" where
  "io_fresh io ds =
     (case io_create io of
        Inl _ \<Rightarrow> True
      | Inr rand \<Rightarrow>
          CHR ''/'' \<notin> set rand \<and> fst ds (script_name io rand) = None \<and> script_name io rand \<noteq> ss_path (snd ds))"

text \<open>Probes, removals, and what others do in the directory: files vanish, and files appear anywhere but
  at the script's own path.\<close>

inductive script_step :: "tmp_dir \<times> script_state \<Rightarrow> tmp_dir \<times> script_state \<Rightarrow> bool" where
  probe: "io_fresh io ds \<Longrightarrow> script_step ds (snd (opcacheScript io ds))"
| remove: "script_step ds (RemoveOpcacheScript io ds)"
| vanish: "script_step (fs, st) (fs(p := None), st)"
| appear: "p \<noteq> ss_path st \<Longrightarrow> script_step (fs, st) (fs(p \<mapsto> f), st)"

text \<open>The package starts without a script, in a directory that may hold anything.\<close>

abbreviation script_start :: "tmp_dir \<times> script_state \<Rightarrow> bool" where
  "script_start ds \<equiv> snd ds = \<lparr>ss_path = [], ss_err = None\<rparr>"

abbreviation script_reachable :: "tmp_dir \<times> script_state \<Rightarrow> bool" where
  "script_reachable \<equiv> reachable script_start script_step"

definition own_script :: tmp_file where
  "own_script = \<lparr>tf_content = opcacheScriptContent, tf_mode = 0x1A4\<rparr>"

definition script_path :: "string \<Rightarrow> bool" where
  "script_path path \<longleftrightarrow> (\<exists>d rand. path = d @ ''/'' @ opcacheScriptPrefix @ rand @ ''.php'' \<and> CHR ''/'' \<notin> set rand)"

definition script_inv :: "tmp_dir \<times> script_state \<Rightarrow> bool" where
  "script_inv ds \<longleftrightarrow>
     ss_path (snd ds) = [] \<or>
     script_path (ss_path (snd ds)) \<and>
     (fst ds (ss_path (snd ds)) = None \<or> fst ds (ss_path (snd ds)) = Some own_script)"

lemma base_append_name:
  assumes "n \<noteq> []" and "slash \<notin> set n"
  shows "base (d @ slash # n) = n"
proof -
  from assms have "dropWhile (\<lambda>c. c = slash) (rev n @ slash # rev d) = rev n @ slash # rev d"
    by (cases n rule: rev_cases) auto
  moreover have "takeWhile (\<lambda>c. c \<noteq> slash) (rev n @ slash # rev d) = rev n"
    using assms(2) by (simp add: takeWhile_append_sep)
  ultimately show ?thesis using assms(1) by (simp add: base_def)
qed

lemma script_path_base:
  assumes "script_path path"
  shows "has_prefix (base path) opcacheScriptPrefix"
proof -
  from assms obtain d rand where path: "path = d @ slash # (opcacheScriptPrefix @ rand @ ''.php'')"
    and "slash \<notin> set rand" unfolding script_path_def by auto
  then have "slash \<notin> set (opcacheScriptPrefix @ rand @ ''.php'')" by (simp add: opcacheScriptPrefix_def)
  then have "base path = opcacheScriptPrefix @ rand @ ''.php''"
    unfolding path by (intro base_append_name) simp_all
  then show ?thesis by simp
qed

lemma script_path_name: "slash \<notin> set rand \<Longrightarrow> script_path (script_name io rand)"
  unfolding script_path_def script_name_def by blast

lemma close_script_path [simp]: "ss_path (close_script io st) = ss_path st"
  by (simp add: close_script_def split: option.splits)

lemma close_script_err [simp]: "ss_err st \<noteq> None \<Longrightarrow> close_script io st = st"
  by (simp add: close_script_def split: option.splits)

lemma io_fresh_err: "io_fresh io (fs, st\<lparr>ss_err := e\<rparr>) = io_fresh io (fs, st)"
  by (simp add: io_fresh_def split: sum.splits)

text \<open>Writing the script either gives up, leaving the old path and every old file as they were, or
  leaves the script at a new path.\<close>

lemma write_script_cases:
  assumes "io_fresh io (fs, st)" and "write_script io (fs, st) = (fs', st')"
  obtains (failed) "ss_err st' \<noteq> None" "ss_path st' = ss_path st" "fs' (ss_path st) = fs (ss_path st)"
  | (written) rand where "ss_path st' = script_name io rand" "CHR ''/'' \<notin> set rand"
      "fs' (script_name io rand) = Some own_script"
proof (cases "io_create io")
  case (Inl e)
  with assms failed show thesis by (auto simp: write_script_def)
next
  case (Inr rand)
  with assms(1) have fresh: "CHR ''/'' \<notin> set rand" "script_name io rand \<noteq> ss_path st"
    by (auto simp: io_fresh_def)
  show thesis
  proof (cases "io_write io = None \<and> io_chmod io = None")
    case True
    with Inr assms(2) fresh written [of rand] show thesis
      by (auto simp: write_script_def Let_def own_script_def)
  next
    case False
    then have "ss_err st' \<noteq> None \<and> ss_path st' = ss_path st \<and> fs' (ss_path st) = fs (ss_path st)"
      using Inr assms(2) fresh
      by (auto simp: write_script_def Let_def remove_file_def split: option.splits)
    with failed show thesis by blast
  qed
qed

lemma script_inv_probe:
  assumes "script_inv ds" and "io_fresh io ds"
  shows "script_inv (snd (opcacheScript io ds))"
proof -
  obtain fs st where ds: "ds = (fs, st)" by fastforce
  obtain fs' st' where w: "write_script io (fs, st\<lparr>ss_err := None\<rparr>) = (fs', st')" by fastforce
  have fresh: "io_fresh io (fs, st\<lparr>ss_err := None\<rparr>)" using assms(2) ds by (simp add: io_fresh_err)
  show ?thesis
  proof (cases "ss_path st \<noteq> [] \<and> io_stat io = None \<and> fs (ss_path st) \<noteq> None")
    case True
    with assms ds show ?thesis by (simp add: opcacheScript_def)
  next
    case False
    from fresh w show ?thesis
    proof (cases rule: write_script_cases)
      case failed
      with False assms ds w show ?thesis by (auto simp: opcacheScript_def script_inv_def)
    next
      case (written rand)
      with False ds w show ?thesis by (auto simp: opcacheScript_def script_inv_def script_path_name)
    qed
  qed
qed

lemma script_inv_step: "script_step ds ds' \<Longrightarrow> script_inv ds \<Longrightarrow> script_inv ds'"
proof (induction rule: script_step.induct)
  case (probe io ds)
  then show ?case by (simp add: script_inv_probe)
next
  case (remove ds io)
  then show ?case by (auto simp: RemoveOpcacheScript_def script_inv_def split: prod.splits)
qed (auto simp: script_inv_def)

interpretation script_system: invariant_system script_start script_step script_inv
  by unfold_locales (simp add: script_inv_def, rule script_inv_step)

lemma opcacheScript_success:
  assumes "script_inv (fs, st)" and "io_fresh io (fs, st)" and "opcacheScript io (fs, st) = ((path, None), fs', st')"
  shows "fs' path = Some own_script \<and> script_path path"
proof (cases "ss_path st \<noteq> [] \<and> io_stat io = None \<and> fs (ss_path st) \<noteq> None")
  case True
  with assms show ?thesis by (auto simp: opcacheScript_def script_inv_def)
next
  case False
  obtain fs2 st2 where w: "write_script io (fs, st\<lparr>ss_err := None\<rparr>) = (fs2, st2)" by fastforce
  have "io_fresh io (fs, st\<lparr>ss_err := None\<rparr>)" using assms(2) by (simp add: io_fresh_err)
  from this w show ?thesis
  proof (cases rule: write_script_cases)
    case failed
    with False w assms(3) show ?thesis by (auto simp: opcacheScript_def)
  next
    case (written rand)
    with False w assms(3) script_path_name [of rand io] show ?thesis
      by (auto simp: opcacheScript_def)
  qed
qed

text \<open>
  C17. However probes, removals and the vanishing of files interleave, and whatever files appear at other
  paths, a probe that gets a script gets its own: the file is there with the fixed content, readable by the
  pool, and the request it makes carries the prefix by which the accounting recognises it. In
  particular a removal is not final.
\<close>

theorem opcacheScript_always_own:
  assumes "script_reachable (fs, st)" and "io_fresh io (fs, st)" and "opcacheScript io (fs, st) = ((path, None), fs', st')"
  shows "fs' path = Some \<lparr>tf_content = opcacheScriptContent, tf_mode = 0x1A4\<rparr> \<and>
    has_prefix (go_index (opcache_env path) ''SCRIPT_NAME'') (''/'' @ opcacheScriptPrefix)"
  using opcacheScript_success [OF script_system.reachable_inv [OF assms(1)] assms(2,3)]
  by (simp add: own_script_def opcache_env_def go_index_def script_path_base)

definition demo_io :: script_io where
  "demo_io = \<lparr>io_stat = None, io_tempdir = ''/tmp'', io_create = Inr ''42'', io_write = None, io_wrote = 0, io_chmod = None,
     io_remove = None, io_close = None\<rparr>"

definition demo_script :: string where
  "demo_script = script_name demo_io ''42''"

definition demo_written :: "tmp_dir \<times> script_state" where
  "demo_written = ([demo_script \<mapsto> own_script], \<lparr>ss_path = demo_script, ss_err = None\<rparr>)"

lemma demo_first_probe:
  "opcacheScript demo_io (Map.empty, \<lparr>ss_path = [], ss_err = None\<rparr>) = ((demo_script, None), demo_written)"
  by (simp add: opcacheScript_def write_script_def demo_io_def demo_written_def demo_script_def close_script_def own_script_def Let_def)

lemma demo_fresh: "io_fresh demo_io (Map.empty, \<lparr>ss_path = [], ss_err = None\<rparr>)"
  by (simp add: io_fresh_def demo_io_def script_name_def)

lemma demo_start: "script_reachable (Map.empty, \<lparr>ss_path = [], ss_err = None\<rparr>)"
  by (rule reachable.start) simp

lemma demo_reachable: "script_reachable demo_written"
  using reachable.move [OF demo_start script_step.probe [OF demo_fresh]] by (simp add: demo_first_probe)

theorem opcacheScript_always_own_witness:
  "has_prefix (go_index (opcache_env demo_script) ''SCRIPT_NAME'') (''/'' @ opcacheScriptPrefix)"
  using opcacheScript_always_own [OF demo_start demo_fresh] demo_first_probe
  by (simp add: demo_written_def)

text \<open>
  C37. The path is taken on trust once it is known: when the script vanishes and another user puts a
  file of their own in its place, the next probe hands that file to PHP-FPM.
\<close>

theorem opcacheScript_accepts_foreign:
  "\<exists>fs st path f io. script_reachable (fs, st) \<and> fs path = None \<and> f \<noteq> \<lparr>tf_content = opcacheScriptContent, tf_mode = 0x1A4\<rparr> \<and>
     opcacheScript io (fs(path \<mapsto> f), st) = ((path, None), fs(path \<mapsto> f), st)"
proof -
  let ?f = "\<lparr>tf_content = ''<?php'', tf_mode = 0\<rparr>" and ?st = "\<lparr>ss_path = demo_script, ss_err = None\<rparr>"
  have reach: "script_reachable ([demo_script \<mapsto> own_script](demo_script := None), ?st)"
    using reachable.move [OF demo_reachable [unfolded demo_written_def] script_step.vanish] .
  have "demo_script \<noteq> []" by (simp add: demo_script_def script_name_def demo_io_def)
  moreover have "io_stat demo_io = None" by (simp add: demo_io_def)
  ultimately have "opcacheScript demo_io (Map.empty(demo_script \<mapsto> ?f), ?st) = ((demo_script, None), Map.empty(demo_script \<mapsto> ?f), ?st)"
    by (simp add: opcacheScript_def)
  moreover have "script_reachable (Map.empty, ?st)" using reach by simp
  moreover have "?f \<noteq> \<lparr>tf_content = opcacheScriptContent, tf_mode = 0x1A4\<rparr>" by simp
  ultimately show ?thesis by blast
qed

section \<open>The answer carries a state\<close>

text \<open>The last value given for a key that is not \<^verbatim>\<open>null\<close>.\<close>

fun state_key :: "(nat \<Rightarrow> nat) \<Rightarrow> (string \<times> json) list \<Rightarrow> bool option \<Rightarrow> bool option" where
  "state_key sfold [] b = b"
| "state_key sfold ((k, j) # kvs) b =
     state_key sfold kvs (if equal_fold sfold k ''opcache_enabled'' then (case j of JBool v \<Rightarrow> Some v | _ \<Rightarrow> None) else b)"

lemma dec_state:
  "dec_fields (set_state sfold) kvs b = Some b' \<Longrightarrow> state_key sfold kvs b = b'"
  by (induction kvs arbitrary: b)
    (auto simp: set_state_def dec_bool_ptr_def split: option.splits if_splits json.splits)

lemma dec_status_enabled:
  "dec_fields (set_state sfold) kvs b = Some b' \<Longrightarrow> dec_fields (set_status sfold fl) kvs s = Some s' \<Longrightarrow>
   b' = Some v \<Longrightarrow> (b = None \<or> b = Some (os_Enabled s)) \<Longrightarrow> os_Enabled s' = v"
proof (induction kvs arbitrary: b s)
  case Nil
  then show ?case by auto
next
  case (Cons kv kvs)
  obtain k j where kv: "kv = (k, j)" by fastforce
  obtain b1 where b1: "set_state sfold k j b = Some b1" "dec_fields (set_state sfold) kvs b1 = Some b'"
    using Cons.prems(1) kv by (auto split: option.splits)
  obtain s1 where s1: "set_status sfold fl k j s = Some s1" "dec_fields (set_status sfold fl) kvs s1 = Some s'"
    using Cons.prems(2) kv by (auto split: option.splits)
  have "b1 = None \<or> b1 = Some (os_Enabled s1)"
    using b1(1) s1(1) Cons.prems(4)
    by (auto simp: set_state_def set_status_def dec_bool_ptr_def dec_bool_def split: if_splits json.splits)
  with Cons.IH [OF b1(2) s1(2) Cons.prems(3)] show ?case by blast
qed

text \<open>
  C32. A status is reported only for an answer that states the cache's state: the answer is an object
  that gives \<^verbatim>\<open>opcache_enabled\<close> as a boolean, and the status says what it gives. An empty object,
  \<^verbatim>\<open>null\<close>, \<^verbatim>\<open>false\<close> and every other value are errors, never a cache that is switched off.
\<close>

theorem parseOpcacheStatus_explicit:
  assumes "parseOpcacheStatus jl body = Inr status"
  shows "\<exists>kvs. jl_text jl body = Some (JObj kvs) \<and> state_key (jl_sfold jl) kvs None = Some (os_Enabled status)"
proof -
  from assms obtain j v where j: "jl_text jl body = Some j"
    and state: "dec_struct (set_state (jl_sfold jl)) j None = Some (Some v)"
    and status: "dec_struct (set_status (jl_sfold jl) (jl_float jl)) j (zero_status (jl_zero jl)) = Some status"
    by (auto simp: parseOpcacheStatus_def split: option.splits)
  from state obtain kvs where kvs: "j = JObj kvs" by (auto simp: dec_struct_def split: json.splits)
  have "os_Enabled status = v"
    using dec_status_enabled [of "jl_sfold jl" kvs None "Some v" "jl_float jl" "zero_status (jl_zero jl)" status v] state status kvs
    by (simp add: dec_struct_def)
  moreover have "state_key (jl_sfold jl) kvs None = Some v"
    using dec_state [of "jl_sfold jl" kvs None "Some v"] state kvs by (simp add: dec_struct_def)
  ultimately show ?thesis using j kvs by blast
qed

definition demo_json :: "int json_lib" where
  "demo_json = \<lparr>jl_sfold = id,
     jl_text = (\<lambda>s. if s = ''x'' then Some (JObj [(''Opcache_Enabled'', JBool True), (''hits'', JNum ''3'')]) else None),
     jl_float = (\<lambda>_. None), jl_zero = 0\<rparr>"

theorem parseOpcacheStatus_explicit_witness:
  "\<exists>kvs. jl_text demo_json ''x'' = Some (JObj kvs) \<and> state_key id kvs None = Some True"
proof -
  have "parseOpcacheStatus demo_json ''x'' = Inr ((zero_status 0)\<lparr>os_Enabled := True\<rparr>)" by code_simp
  from parseOpcacheStatus_explicit [OF this] show ?thesis by (simp add: demo_json_def)
qed

end
