(* ===== verification/Status.thy ===== *)
theory Status
  imports Opcache
begin

text \<open>
  \<^verbatim>\<open>status.go\<close>: reading one full status page, and the rule of \<^verbatim>\<open>metrics.go\<close> that decides whether the
  answer is this pool's status page at all. The whole exchange runs under one deadline, the earlier of
  the caller's and the target's own.
\<close>

datatype status_error =
    InvalidAddress address_error
  | StatusDialFailed string
  | StatusGetFailed string
  | StatusBadJSON string
  | MissingFields
  | NoPoolName string
  | OtherPool string string string

definition checkIsStatusFor :: "(nat \<Rightarrow> nat) \<Rightarrow> string \<Rightarrow> string \<Rightarrow> string \<Rightarrow> status_error option" where
  "checkIsStatusFor sfold reported asked path =
     (if reported = [] then Some (NoPoolName path)
      else if asked \<noteq> [] \<and> \<not> equal_fold sfold reported asked then Some (OtherPool path reported asked)
      else None)"

definition status_env :: "string \<Rightarrow> strmap" where
  "status_env path =
     [(''SCRIPT_FILENAME'', path), (''SCRIPT_NAME'', path), (''SERVER_SOFTWARE'', serverSoftware),
      (''SERVER_PROTOCOL'', ''HTTP/1.1''), (''REMOTE_ADDR'', ''127.0.0.1''), (''QUERY_STRING'', ''json&full'')]"

definition status_pool :: "'f payload \<Rightarrow> 'f pool option" where
  "status_pool pl =
     (case (pl_Active pl, pl_Idle pl, pl_Total pl, pl_Queue pl, pl_Workers pl) of
        (Some a, Some i, Some t, Some q, Some ws) \<Rightarrow>
          Some ((pl_Pool pl)\<lparr>po_ActiveProcesses := a, po_IdleProcesses := i, po_TotalProcesses := t,
                  po_ListenQueue := q, po_Processes := ws\<rparr>)
      | _ \<Rightarrow> None)"

definition readStatus ::
  "(nat \<Rightarrow> nat) \<Rightarrow> ('r, 'f) fcgx \<Rightarrow> int \<Rightarrow> deadline \<Rightarrow> target \<Rightarrow> status_error + 'f pool" where
  "readStatus sfold fx now parent tgt =
     (case ParseAddress (statusAddress tgt) (t_StatusPath tgt) of
        Inl e \<Rightarrow> Inl (InvalidAddress e)
      | Inr (scheme, address, path) \<Rightarrow>
          let ctx = with_timeout now (dialTimeout tgt) parent in
          (case fc_dial fx ctx scheme address of
             Some e \<Rightarrow> Inl (StatusDialFailed e)
           | None \<Rightarrow>
               (case fc_get fx ctx scheme address (status_env path) of
                  Inl e \<Rightarrow> Inl (StatusGetFailed e)
                | Inr resp \<Rightarrow>
                    (case fc_read_json fx resp of
                       Inl e \<Rightarrow> Inl (StatusBadJSON e)
                     | Inr pl \<Rightarrow>
                         (case status_pool pl of
                            None \<Rightarrow> Inl MissingFields
                          | Some pool \<Rightarrow>
                              (case checkIsStatusFor sfold (po_Name pool) (t_Name tgt) path of
                                 Some e \<Rightarrow> Inl e
                               | None \<Rightarrow> Inr (pool\<lparr>po_Address := address, po_Path := path\<rparr>)))))))"

definition ReadStatus ::
  "(nat \<Rightarrow> nat) \<Rightarrow> ('r, 'f) fcgx \<Rightarrow> int \<Rightarrow> deadline \<Rightarrow> target \<Rightarrow> status_error + 'f pool" where
  "ReadStatus sfold fx now ctx tgt = readStatus sfold fx now ctx tgt"

lemma checkIsStatusFor_None:
  "checkIsStatusFor sfold reported asked path = None \<longleftrightarrow>
     reported \<noteq> [] \<and> (asked = [] \<or> equal_fold sfold reported asked)"
  by (simp add: checkIsStatusFor_def)

lemma status_pool_Some:
  "status_pool pl = Some p \<longleftrightarrow>
     (\<exists>a i t q ws. pl_Active pl = Some a \<and> pl_Idle pl = Some i \<and> pl_Total pl = Some t \<and> pl_Queue pl = Some q \<and>
        pl_Workers pl = Some ws \<and>
        p = (pl_Pool pl)\<lparr>po_ActiveProcesses := a, po_IdleProcesses := i, po_TotalProcesses := t,
               po_ListenQueue := q, po_Processes := ws\<rparr>)"
  by (auto simp: status_pool_def split: option.splits)

text \<open>
  C22. A pool comes out of a status read only when the answer is a full status page of the pool that
  was asked for: all five counters and the worker list are present and taken from it, it names a pool,
  and, when the target has a name, that pool up to case. No missing field is ever read as zero. The
  exchange ran under the earlier of the caller's deadline and the target's.
\<close>

theorem readStatus_faithful:
  assumes "readStatus sfold fx now parent tgt = Inr p"
  shows "\<exists>ctx scheme address resp pl. ctx = with_timeout now (dialTimeout tgt) parent \<and>
    ParseAddress (statusAddress tgt) (t_StatusPath tgt) = Inr (scheme, address, t_StatusPath tgt) \<and>
    fc_dial fx ctx scheme address = None \<and>
    fc_get fx ctx scheme address (status_env (t_StatusPath tgt)) = Inr resp \<and> fc_read_json fx resp = Inr pl \<and>
    pl_Active pl = Some (po_ActiveProcesses p) \<and> pl_Idle pl = Some (po_IdleProcesses p) \<and>
    pl_Total pl = Some (po_TotalProcesses p) \<and> pl_Queue pl = Some (po_ListenQueue p) \<and>
    pl_Workers pl = Some (po_Processes p) \<and> po_Name p = po_Name (pl_Pool pl) \<and> po_Name p \<noteq> [] \<and>
    (t_Name tgt = [] \<or> equal_fold sfold (po_Name p) (t_Name tgt)) \<and> po_Address p = address"
proof -
  have same_path: "path' = path" if "ParseAddress addr path = Inr (scheme, address, path')" for addr path scheme address path'
    using that by (auto simp: ParseAddress_def split: if_splits)
  from assms obtain scheme address path resp pl pool where
    addr: "ParseAddress (statusAddress tgt) (t_StatusPath tgt) = Inr (scheme, address, path)"
    and "fc_dial fx (with_timeout now (dialTimeout tgt) parent) scheme address = None"
      "fc_get fx (with_timeout now (dialTimeout tgt) parent) scheme address (status_env path) = Inr resp"
      "fc_read_json fx resp = Inr pl"
    and pool: "status_pool pl = Some pool" and check: "checkIsStatusFor sfold (po_Name pool) (t_Name tgt) path = None"
    and p: "p = pool\<lparr>po_Address := address, po_Path := path\<rparr>"
    by (auto simp: readStatus_def Let_def split: sum.splits option.splits)
  moreover have "path = t_StatusPath tgt" by (rule same_path [OF addr])
  ultimately show ?thesis
    using check by (auto simp: status_pool_Some checkIsStatusFor_None)
qed

section \<open>A status page on a concrete client\<close>

definition demo_worker :: "int \<Rightarrow> string \<Rightarrow> string \<Rightarrow> int pool_process" where
  "demo_worker pid state uri =
     \<lparr>pp_PID = pid, pp_State = state, pp_StartTime = 0, pp_StartSince = 0, pp_Requests = 1, pp_RequestDuration = 1,
      pp_RequestMethod = ''GET'', pp_RequestURI = uri, pp_ContentLength = 0, pp_User = ''-'', pp_Script = ''-'',
      pp_LastRequestCPU = 10, pp_LastRequestMemory = 2, pp_CurrentRSS = 0, pp_CurrentPSS = 0, pp_SubtreeRSS = 0\<rparr>"

definition demo_pool :: "int pool" where
  "demo_pool =
     \<lparr>po_Address = [], po_Path = [], po_Name = ''www'', po_ProcessManager = ''dynamic'', po_StartTime = 0,
      po_StartSince = 0, po_AcceptedConnections = 3, po_ListenQueue = 0, po_MaxListenQueue = 0,
      po_ListenQueueLength = 0, po_IdleProcesses = 0, po_ActiveProcesses = 0, po_TotalProcesses = 0,
      po_MaxActiveProcesses = 1, po_MaxChildrenReached = 0, po_SlowRequests = 0, po_MemoryPeak = 0,
      po_Processes = [], po_ProcessesCpu = None, po_ProcessesMemory = None, po_Config = [],
      po_OpcacheObserved = False, po_OpcacheStatus = zero_status 0,
      po_PhpInfo = \<lparr>pi_Version = [], pi_Extensions = []\<rparr>\<rparr>"

definition demo_client :: "(unit, int) fcgx" where
  "demo_client =
     \<lparr>fc_dial = (\<lambda>_ _ _. None), fc_get = (\<lambda>_ _ _ _. Inr ()), fc_read_body = (\<lambda>_. Inl ''empty''),
      fc_read_json = (\<lambda>_. Inr \<lparr>pl_Pool = demo_pool, pl_Active = Some 1, pl_Idle = Some 1, pl_Total = Some 2,
        pl_Queue = Some 4, pl_Workers = Some [demo_worker 7 ''Idle'' ''/a?k=v'', demo_worker 8 ''Running'' ''/status'']\<rparr>)\<rparr>"

definition demo_scrape_target :: target where
  "demo_scrape_target = \<lparr>t_Name = ''WWW'', t_Socket = ''/w.sock'', t_StatusSocket = [], t_StatusPath = ''/status'',
     t_ConfigPath = ''/etc/f.conf'', t_Binary = ''/usr/php-fpm'', t_MaxChildren = 5, t_ProcessManager = [],
     t_Workload = [], t_PID = 7, t_Timeout = 0\<rparr>"

theorem readStatus_faithful_witness:
  "\<exists>p. readStatus id demo_client 0 None demo_scrape_target = Inr p \<and> po_Name p = ''www'' \<and> po_ListenQueue p = 4"
proof -
  have fold: "equal_fold id ''www'' ''WWW''" by code_simp
  obtain p where p: "readStatus id demo_client 0 None demo_scrape_target = Inr p"
    using fold
    by (simp add: readStatus_def demo_scrape_target_def statusAddress_def ParseAddress_def demo_client_def
        status_pool_def checkIsStatusFor_def demo_pool_def)
  from readStatus_faithful [OF this] show ?thesis
    using p by (auto simp: demo_client_def demo_pool_def)
qed

end
