(* ===== verification/Metrics.thy ===== *)
theory Metrics
  imports Rss Info Status
begin

text \<open>
  \<^verbatim>\<open>metrics.go\<close>: scraping one pool. A scrape reads the status page, attaches the part of the pool's
  configuration that may be published, fills in the workers' memory, recounts the workers, and adds
  the PHP information and the cache state. It works on the three shared caches of the package (the
  parsed configurations, the PHP information, the status script), which it returns updated.
\<close>

section \<open>The published configuration\<close>

definition exportedConfigKeys :: "string list" where
  "exportedConfigKeys =
     [''pm.max_children'', ''pm.max_requests'', ''pm.max_spare_servers'', ''pm.max_spawn_rate'',
      ''pm.min_spare_servers'', ''pm.process_idle_timeout'', ''pm.start_servers'', ''request_slowlog_timeout'',
      ''request_terminate_timeout'', ''rlimit_core'', ''rlimit_files'']"

definition exported_key :: "string \<Rightarrow> bool" where
  "exported_key key \<longleftrightarrow> to_lower (trim_space key) \<in> set exportedConfigKeys"

fun export_loop :: "strmap \<Rightarrow> strmap \<Rightarrow> strmap" where
  "export_loop [] acc = acc"
| "export_loop ((key, value) # rest) acc =
     export_loop rest (if exported_key key then AList.update key value acc else acc)"

text \<open>\<open>order\<close> is the order in which Go ranges over the map.\<close>

definition exportableConfig :: "(strmap \<Rightarrow> strmap) \<Rightarrow> strmap \<Rightarrow> strmap" where
  "exportableConfig order values = export_loop (order values) []"

text \<open>The section that belongs to the pool: the exact name, or the only section that has it up to case.\<close>

fun match_loop :: "(nat \<Rightarrow> nat) \<Rightarrow> string \<Rightarrow> strmap gomap \<Rightarrow> strmap \<times> nat \<Rightarrow> strmap \<times> nat" where
  "match_loop sfold name [] acc = acc"
| "match_loop sfold name ((section, values) # rest) acc =
     match_loop sfold name rest (if equal_fold sfold section name then (values, snd acc + 1) else acc)"

definition pool_section ::
  "(nat \<Rightarrow> nat) \<Rightarrow> (strmap gomap \<Rightarrow> strmap gomap) \<Rightarrow> string \<Rightarrow> strmap gomap \<Rightarrow> strmap option" where
  "pool_section sfold order name pools =
     (case map_of pools name of
        Some values \<Rightarrow> Some values
      | None \<Rightarrow>
          (case match_loop sfold name (order pools) ([], 0) of (match, found) \<Rightarrow>
             if found = 1 then Some match else None))"

section \<open>Recounting\<close>

text \<open>Floating-point arithmetic, as far as the averages use it.\<close>

record 'f floats =
  fl_zero :: 'f
  fl_add :: "'f \<Rightarrow> 'f \<Rightarrow> 'f"
  fl_div :: "'f \<Rightarrow> 'f \<Rightarrow> 'f"
  fl_of_nat :: "nat \<Rightarrow> 'f"

definition strip_query :: "string \<Rightarrow> string" where
  "strip_query uri =
     (case index_of uri ''?'' of Some q \<Rightarrow> take q uri | None \<Rightarrow> uri)"

definition active_states :: "string list" where
  "active_states = [''running'', ''reading headers'', ''info'', ''finishing'', ''ending'']"

text \<open>The totals the loop keeps.\<close>

record 'f recount =
  rc_cpu :: 'f
  rc_mem :: 'f
  rc_count :: nat
  rc_active :: int64
  rc_idle :: int64

definition counted :: "string \<Rightarrow> string \<Rightarrow> bool" where
  "counted statusPath uri \<longleftrightarrow> \<not> has_prefix uri statusPath \<and> \<not> has_prefix uri (''/'' @ opcacheScriptPrefix)"

definition recount_one :: "'f floats \<Rightarrow> string \<Rightarrow> 'f pool_process \<Rightarrow> 'f recount \<Rightarrow> 'f recount" where
  "recount_one fl statusPath proc acc =
     (let st = to_lower (pp_State proc);
          acc1 = (if st \<in> set active_states then acc\<lparr>rc_active := rc_active acc + 1\<rparr>
                  else if st = ''idle'' then acc\<lparr>rc_idle := rc_idle acc + 1\<rparr>
                  else acc)
      in if counted statusPath (pp_RequestURI proc)
         then acc1\<lparr>rc_cpu := fl_add fl (rc_cpu acc1) (pp_LastRequestCPU proc),
                   rc_mem := fl_add fl (rc_mem acc1) (pp_LastRequestMemory proc),
                   rc_count := rc_count acc1 + 1\<rparr>
         else acc1)"

definition recountProcesses :: "'f floats \<Rightarrow> string \<Rightarrow> 'f pool \<Rightarrow> 'f pool" where
  "recountProcesses fl statusPath p =
     (let ws = map (\<lambda>w. w\<lparr>pp_RequestURI := strip_query (pp_RequestURI w)\<rparr>) (po_Processes p);
          t = fold (recount_one fl statusPath) ws
                \<lparr>rc_cpu = fl_zero fl, rc_mem = fl_zero fl, rc_count = 0, rc_active = 0, rc_idle = 0\<rparr>;
          p' = p\<lparr>po_Processes := ws, po_ActiveProcesses := rc_active t, po_IdleProcesses := rc_idle t,
                 po_TotalProcesses := word_of_nat (length ws)\<rparr>
      in if 0 < rc_count t
         then p'\<lparr>po_ProcessesCpu := Some (fl_div fl (rc_cpu t) (fl_of_nat fl (rc_count t))),
                 po_ProcessesMemory := Some (fl_div fl (rc_mem t) (fl_of_nat fl (rc_count t)))\<rparr>
         else p')"

section \<open>Scrape\<close>

record 'f outcome =
  oc_Name :: string
  oc_Socket :: string
  oc_Result :: "'f scrape_result option"
  oc_Err :: "status_error option"

text \<open>The shared state of the package.\<close>

record shared =
  sh_config :: config_cache
  sh_info :: info_state
  sh_script :: "tmp_dir \<times> script_state"

text \<open>What a scrape depends on besides its target: Go's library, the FastCGI client, the order of map
  iterations, what waiting for another caller's PHP information under a context with a given deadline ends
  with, the caller's deadline, the host, and the host as programs that run under a context with a given deadline find it.\<close>

record ('r, 'f) scrape_env =
  se_json :: "'f json_lib"
  se_floats :: "'f floats"
  se_client :: "('r, 'f) fcgx"
  se_order :: "strmap \<Rightarrow> strmap"
  se_pool_order :: "strmap gomap \<Rightarrow> strmap gomap"
  se_await :: "deadline \<Rightarrow> nat \<Rightarrow> info_result"
  se_script_io :: script_io
  se_deadline :: deadline
  se_host :: host
  se_run :: "deadline \<Rightarrow> host"

definition attach_config :: "('r, 'f) scrape_env \<Rightarrow> effective_config \<Rightarrow> 'f pool \<Rightarrow> 'f pool" where
  "attach_config env conf p =
     (case pool_section (jl_sfold (se_json env)) (se_pool_order env) (po_Name p) (ec_Pools conf) of
        Some values \<Rightarrow> p\<lparr>po_Config := exportableConfig (se_order env) values\<rparr>
      | None \<Rightarrow> p)"

definition scrape ::
  "('r, 'f) scrape_env \<Rightarrow> target \<Rightarrow> snapshot option \<Rightarrow> shared \<Rightarrow> 'f outcome \<times> shared \<times> exec_call list" where
  "scrape env tgt snap sh =
     (let h = se_host env;
          ctx = with_timeout (h_now h) (dialTimeout tgt) (se_deadline env);
          outcome = \<lparr>oc_Name = label tgt, oc_Socket = statusAddress tgt, oc_Result = None, oc_Err = None\<rparr>
      in case readStatus (jl_sfold (se_json env)) (se_client env) (h_now h) ctx tgt of
           Inl e \<Rightarrow> (outcome\<lparr>oc_Err := Some e\<rparr>, sh, [])
         | Inr p0 \<Rightarrow>
             (case ParseConfigContext (se_run env ctx) (t_Binary tgt) (t_ConfigPath tgt) (sh_config sh) of (conf, cc, ex1) \<Rightarrow>
              let (p1, global) =
                    (case conf of
                       Inl _ \<Rightarrow> (p0, [])
                     | Inr c \<Rightarrow> (attach_config env c p0, exportableConfig (se_order env) (ec_Global c)));
                  p2 = fst (enrichWorkerRSS h snap p1);
                  p3 = recountProcesses (se_floats env) (t_StatusPath tgt) p2
              in case GetPHPStats (se_run env ctx) (se_run env ctx) (se_await env ctx) tgt (sh_info sh) of (info, is, ex2) \<Rightarrow>
                 let p4 = (case info of Inl _ \<Rightarrow> p3 | Inr i \<Rightarrow> p3\<lparr>po_PhpInfo := i\<rparr>)
                 in case GetOpcacheStatus (se_json env) (se_client env) (se_script_io env) ctx tgt (sh_script sh) of
                      (opc, script) \<Rightarrow>
                    let p5 = (case opc of Inl _ \<Rightarrow> p4
                              | Inr s \<Rightarrow> p4\<lparr>po_OpcacheStatus := s, po_OpcacheObserved := True\<rparr>);
                        result = \<lparr>sr_Timestamp = h_now h, sr_Pools = [(po_Name p5, p5)], sr_Global = global\<rparr>;
                        name = (if t_Name tgt = [] \<and> po_Name p5 \<noteq> [] then po_Name p5 else oc_Name outcome)
                    in (outcome\<lparr>oc_Name := name, oc_Result := Some result\<rparr>,
                        \<lparr>sh_config = cc, sh_info = is, sh_script = script\<rparr>, ex1 @ ex2)))"

definition Scrape ::
  "('r, 'f) scrape_env \<Rightarrow> target \<Rightarrow> shared \<Rightarrow> 'f outcome \<times> shared \<times> exec_call list" where
  "Scrape env tgt sh = scrape env tgt (snapshotProcesses (se_host env)) sh"

text \<open>The context of a scrape, and its status read.\<close>

abbreviation scrape_ctx :: "('r, 'f) scrape_env \<Rightarrow> target \<Rightarrow> deadline" where
  "scrape_ctx env tgt \<equiv> with_timeout (h_now (se_host env)) (dialTimeout tgt) (se_deadline env)"

abbreviation scrape_status :: "('r, 'f) scrape_env \<Rightarrow> target \<Rightarrow> status_error + 'f pool" where
  "scrape_status env tgt \<equiv>
     readStatus (jl_sfold (se_json env)) (se_client env) (h_now (se_host env)) (scrape_ctx env tgt) tgt"

section \<open>Deadlines\<close>

lemma readStatus_client:
  assumes "\<And>ctx. ctx = with_timeout now (dialTimeout tgt) parent \<Longrightarrow>
      fc_dial fx ctx = fc_dial fx' ctx \<and> fc_get fx ctx = fc_get fx' ctx"
    and "fc_read_json fx = fc_read_json fx'"
  shows "readStatus sfold fx now parent tgt = readStatus sfold fx' now parent tgt"
  using assms by (auto simp: readStatus_def Let_def split: sum.splits option.splits)

lemma GetOpcacheStatus_client:
  assumes "fc_dial fx ctx = fc_dial fx' ctx" and "fc_get fx ctx = fc_get fx' ctx" and "fc_read_body fx = fc_read_body fx'"
  shows "GetOpcacheStatus jl fx io ctx tgt ds = GetOpcacheStatus jl fx' io ctx tgt ds"
  using assms by (auto simp: GetOpcacheStatus_def split: prod.splits sum.splits option.splits)

lemma attach_config_env [simp]:
  "attach_config (env\<lparr>se_client := fx, se_run := run, se_await := await\<rparr>) conf p = attach_config env conf p"
  by (simp add: attach_config_def split: option.split)

text \<open>
  C19. A scrape waits for nothing beyond its deadlines: every exchange with the pool, every program it
  runs and the wait for another caller's PHP information has a deadline, which is neither later than the
  target's timeout from now nor later than the caller's. What the pool, a program or the wait would do
  under any later deadline, or under none, makes no difference to the scrape.
\<close>

theorem scrape_respects_deadlines:
  assumes "\<forall>d. d \<le> h_now (se_host env) + dialTimeout tgt \<and> (se_deadline env = None \<or> (\<exists>u. se_deadline env = Some u \<and> d \<le> u)) \<longrightarrow>
      fc_dial fx (Some d) = fc_dial (se_client env) (Some d) \<and> fc_get fx (Some d) = fc_get (se_client env) (Some d) \<and>
      run (Some d) = se_run env (Some d) \<and> await (Some d) = se_await env (Some d)"
    and "fc_read_body fx = fc_read_body (se_client env)" and "fc_read_json fx = fc_read_json (se_client env)"
  shows "scrape (env\<lparr>se_client := fx, se_run := run, se_await := await\<rparr>) tgt snap sh = scrape env tgt snap sh"
proof -
  obtain t where t: "scrape_ctx env tgt = Some t" and bounds: "t \<le> h_now (se_host env) + dialTimeout tgt"
      "se_deadline env = None \<or> (\<exists>u. se_deadline env = Some u \<and> t \<le> u)"
    by (rule with_timeout_bounds)
  with assms(1) have same: "fc_dial fx (scrape_ctx env tgt) = fc_dial (se_client env) (scrape_ctx env tgt)"
      "fc_get fx (scrape_ctx env tgt) = fc_get (se_client env) (scrape_ctx env tgt)"
      "run (scrape_ctx env tgt) = se_run env (scrape_ctx env tgt)"
      "await (scrape_ctx env tgt) = se_await env (scrape_ctx env tgt)"
    by simp_all
  then have "readStatus sfold fx (h_now (se_host env)) (scrape_ctx env tgt) tgt =
      readStatus sfold (se_client env) (h_now (se_host env)) (scrape_ctx env tgt) tgt" for sfold
    using assms(3) by (intro readStatus_client) simp_all
  moreover have "GetOpcacheStatus jl fx io (scrape_ctx env tgt) tgt ds =
      GetOpcacheStatus jl (se_client env) io (scrape_ctx env tgt) tgt ds" for jl io ds
    using same(1,2) assms(2) by (intro GetOpcacheStatus_client)
  ultimately show ?thesis
    using same(3,4)
    by (cases "scrape_status env tgt") (auto simp: scrape_def Let_def case_prod_unfold split: sum.split)
qed

section \<open>What is published\<close>

lemma export_loop_filter:
  "gomap_ok values \<Longrightarrow> fst ` set values \<inter> fst ` set acc = {} \<Longrightarrow>
   export_loop values acc = acc @ filter (\<lambda>(k, v). exported_key k) values"
proof (induction "values" acc rule: export_loop.induct)
  case (2 key v rest acc)
  then have "key \<notin> fst ` set acc" and "fst ` set rest \<inter> fst ` set (acc @ [(key, v)]) = {}" by auto
  with 2 show ?case by (simp add: update_new)
qed simp

lemma exportableConfig_lookup:
  assumes "gomap_ok values" and "mset (order values) = mset values"
  shows "map_of (exportableConfig order values) k = (if exported_key k then map_of values k else None)"
proof -
  have "gomap_ok (order values)" using assms by (metis mset_eq_imp_distinct_iff mset_map)
  then show ?thesis
    using export_loop_filter [of "order values" "[]"] map_of_perm [OF assms]
    by (simp add: exportableConfig_def map_of_filter_key)
qed

lemma export_loop_keys: "k \<in> fst ` set (export_loop values acc) \<Longrightarrow> exported_key k \<or> k \<in> fst ` set acc"
  by (induction "values" acc rule: export_loop.induct) (auto split: if_splits)

lemma exportableConfig_keys: "k \<in> fst ` set (exportableConfig order values) \<Longrightarrow> exported_key k"
  using export_loop_keys [of k "order values" "[]"] by (simp add: exportableConfig_def)

lemma recount_config [simp]: "po_Config (recountProcesses fl path p) = po_Config p" "po_Name (recountProcesses fl path p) = po_Name p"
  by (simp_all add: recountProcesses_def Let_def)

lemma enrich_config [simp]: "po_Config (fst (enrichWorkerRSS h snap p)) = po_Config p" "po_Name (fst (enrichWorkerRSS h snap p)) = po_Name p"
  by (simp_all add: enrichWorkerRSS_def Let_def)

lemma attach_config_simps:
  "po_Name (attach_config env conf p) = po_Name p"
  "pool_section (jl_sfold (se_json env)) (se_pool_order env) (po_Name p) (ec_Pools conf) = Some v \<Longrightarrow>
   k \<in> fst ` set (po_Config (attach_config env conf p)) \<Longrightarrow> exported_key k"
  "pool_section (jl_sfold (se_json env)) (se_pool_order env) (po_Name p) (ec_Pools conf) = None \<Longrightarrow> attach_config env conf p = p"
  by (auto simp: attach_config_def dest: exportableConfig_keys [OF imageI] split: option.splits) 

text \<open>The parts of a successful scrape.\<close>

lemma scrape_result_cases:
  assumes "oc_Result (fst (scrape env tgt snap sh)) = Some res"
  obtains p0 p where "scrape_status env tgt = Inr p0"
    and "sr_Pools res = [(po_Name p0, p)]" and "po_Name p = po_Name p0"
    and "po_Config p = (case fst (ParseConfigContext (se_run env (scrape_ctx env tgt)) (t_Binary tgt) (t_ConfigPath tgt) (sh_config sh)) of
           Inl _ \<Rightarrow> po_Config p0 | Inr c \<Rightarrow> po_Config (attach_config env c p0))"
    and "sr_Global res = (case fst (ParseConfigContext (se_run env (scrape_ctx env tgt)) (t_Binary tgt) (t_ConfigPath tgt) (sh_config sh)) of
           Inl _ \<Rightarrow> [] | Inr c \<Rightarrow> exportableConfig (se_order env) (ec_Global c))"
proof (cases "scrape_status env tgt")
  case (Inl e)
  with assms show thesis by (simp add: scrape_def Let_def)
next
  case (Inr p0)
  show thesis
    by (rule that [OF Inr, of "snd (hd (sr_Pools res))"])
      (use assms Inr in \<open>auto simp: scrape_def Let_def case_prod_unfold attach_config_simps split: sum.splits\<close>)
qed

text \<open>The eleven settings that may be published, up to case and surrounding blanks.\<close>

definition published :: "string \<Rightarrow> bool" where
  "published k \<longleftrightarrow> to_lower (trim_space k) \<in>
     {''pm.max_children'', ''pm.start_servers'', ''pm.min_spare_servers'', ''pm.max_spare_servers'', ''pm.max_spawn_rate'',
      ''pm.process_idle_timeout'', ''pm.max_requests'', ''request_terminate_timeout'', ''request_slowlog_timeout'',
      ''rlimit_files'', ''rlimit_core''}"

lemma published_exported: "published k \<longleftrightarrow> exported_key k"
  unfolding published_def exported_key_def exportedConfigKeys_def by (simp only: list.set insert_iff empty_iff) blast

text \<open>
  C18. What a scrape publishes of the configuration on the host is nothing but the eleven settings, named up to
  case and surrounding blanks: every key of the global settings is one of them, and so is every key
  of the pool's configuration. The exception is a pool for which no section was found, because the
  configuration could not be read or no section belongs to it: its configuration is what the status page
  itself gave as such, unfiltered.
\<close>

theorem scrape_publishes_only_allowed:
  assumes "oc_Result (fst (scrape env tgt snap sh)) = Some res"
  shows "\<exists>p0 p. scrape_status env tgt = Inr p0 \<and> sr_Pools res = [(po_Name p0, p)] \<and>
    list_all (\<lambda>(k, v). published k) (sr_Global res) \<and>
    (case fst (ParseConfigContext (se_run env (scrape_ctx env tgt)) (t_Binary tgt) (t_ConfigPath tgt) (sh_config sh)) of
       Inl _ \<Rightarrow> po_Config p = po_Config p0
     | Inr c \<Rightarrow>
         (case pool_section (jl_sfold (se_json env)) (se_pool_order env) (po_Name p0) (ec_Pools c) of
            None \<Rightarrow> po_Config p = po_Config p0
          | Some _ \<Rightarrow> list_all (\<lambda>(k, v). published k) (po_Config p)))"
  using assms
proof (cases rule: scrape_result_cases)
  case (1 p0 p)
  have "published k" if "k \<in> fst ` set (sr_Global res)" for k
    using that 1(5) exportableConfig_keys by (simp add: published_exported split: sum.splits)
  then have glob: "list_all (\<lambda>(k, v). published k) (sr_Global res)" by (force simp: list_all_iff)
  have keys: "list_all (\<lambda>(k, v). published k) (po_Config (attach_config env c p0))"
    if "pool_section (jl_sfold (se_json env)) (se_pool_order env) (po_Name p0) (ec_Pools c) = Some v" for c v
    using attach_config_simps(2) [OF that] by (force simp: list_all_iff published_exported)
  have none: "po_Config (attach_config env c p0) = po_Config p0"
    if "pool_section (jl_sfold (se_json env)) (se_pool_order env) (po_Name p0) (ec_Pools c) = None" for c
    using attach_config_simps(3) [OF that] by simp
  show ?thesis
    by (rule exI [of _ p0], rule exI [of _ p])
      (use 1 glob keys none in \<open>simp split: sum.split option.split\<close>)
qed

section \<open>Which section is used\<close>

lemma match_loop_filter:
  "match_loop sfold name pools acc =
     (let ms = filter (\<lambda>(sec, v). equal_fold sfold sec name) pools
      in (if ms = [] then fst acc else snd (last ms), snd acc + length ms))"
  by (induction sfold name pools acc rule: match_loop.induct) (auto simp: Let_def)

text \<open>
  C20. The configuration attached to a pool is that of the section with exactly its name or, when there is
  none, of the only section whose name is the same up to case; with two such sections none is used.
  The choice does not depend on the order in which Go ranges over the sections.
\<close>

theorem pool_section_unambiguous:
  assumes "gomap_ok pools" and "mset (order pools) = mset pools"
  shows "pool_section sfold order name pools = Some v \<longleftrightarrow>
    map_of pools name = Some v \<or>
    map_of pools name = None \<and> (\<exists>sec. {m \<in> set pools. equal_fold sfold (fst m) name} = {(sec, v)})"
proof -
  let ?ms = "filter (\<lambda>(sec, v). equal_fold sfold sec name) (order pools)"
  have set_ms: "set ?ms = {m \<in> set pools. equal_fold sfold (fst m) name}"
    using assms(2) by (auto dest: mset_eq_setD)
  have "distinct (order pools)"
    using assms by (metis distinct_map mset_eq_imp_distinct_iff)
  then have dist: "distinct ?ms" by simp
  have "(length ?ms = 1 \<and> snd (last ?ms) = v) \<longleftrightarrow> (\<exists>sec. set ?ms = {(sec, v)})"
  proof
    assume "\<exists>sec. set ?ms = {(sec, v)}"
    then obtain sec where "set ?ms = {(sec, v)}" by blast
    from distinct_set_singleton [OF dist this]
    show "length ?ms = 1 \<and> snd (last ?ms) = v" by simp
  next
    assume one: "length ?ms = 1 \<and> snd (last ?ms) = v"
    then have "length ?ms = Suc 0" by simp
    then obtain m where ms: "?ms = [m]" by (auto simp only: length_Suc_conv length_0_conv)
    with one have "snd m = v" by (simp only: ms last.simps) simp
    then have "set ?ms = {(fst m, v)}" unfolding ms by auto
    then show "\<exists>sec. set ?ms = {(sec, v)}" ..
  qed
  then show ?thesis
    unfolding pool_section_def match_loop_filter set_ms [symmetric]
    by (auto simp: Let_def split: option.splits)
qed

section \<open>What recounting counts\<close>

definition is_active :: "'f pool_process \<Rightarrow> bool" where
  "is_active w \<longleftrightarrow> to_lower (pp_State w) \<in> set active_states"

definition is_idle :: "'f pool_process \<Rightarrow> bool" where
  "is_idle w \<longleftrightarrow> to_lower (pp_State w) = ''idle''"

lemma is_active_uri [simp]:
  "is_active (w\<lparr>pp_RequestURI := u\<rparr>) = is_active w" "is_idle (w\<lparr>pp_RequestURI := u\<rparr>) = is_idle w"
  by (simp_all add: is_active_def is_idle_def)

lemma idle_not_active: "is_idle w \<Longrightarrow> \<not> is_active w"
  by (simp add: is_idle_def is_active_def active_states_def)

definition sum_floats :: "'f floats \<Rightarrow> 'f list \<Rightarrow> 'f \<Rightarrow> 'f" where
  "sum_floats fl xs z = fold (\<lambda>x s. fl_add fl s x) xs z"

lemma recount_one_simps:
  "rc_active (recount_one fl path w acc) = rc_active acc + (if is_active w then 1 else 0)"
  "rc_idle (recount_one fl path w acc) = rc_idle acc + (if is_idle w then 1 else 0)"
  "rc_count (recount_one fl path w acc) = rc_count acc + (if counted path (pp_RequestURI w) then 1 else 0)"
  "rc_cpu (recount_one fl path w acc) =
     (if counted path (pp_RequestURI w) then fl_add fl (rc_cpu acc) (pp_LastRequestCPU w) else rc_cpu acc)"
  "rc_mem (recount_one fl path w acc) =
     (if counted path (pp_RequestURI w) then fl_add fl (rc_mem acc) (pp_LastRequestMemory w) else rc_mem acc)"
  using idle_not_active [of w]
  by (auto simp: recount_one_def Let_def is_active_def is_idle_def)

lemma recount_fold:
  fixes fl :: "'f floats" and ws :: "'f pool_process list" and path :: string
  defines "cs \<equiv> filter (\<lambda>w. counted path (pp_RequestURI w)) ws"
  shows "rc_active (fold (recount_one fl path) ws acc) = rc_active acc + word_of_nat (length (filter is_active ws))"
    and "rc_idle (fold (recount_one fl path) ws acc) = rc_idle acc + word_of_nat (length (filter is_idle ws))"
    and "rc_count (fold (recount_one fl path) ws acc) = rc_count acc + length cs"
    and "rc_cpu (fold (recount_one fl path) ws acc) = sum_floats fl (map pp_LastRequestCPU cs) (rc_cpu acc)"
    and "rc_mem (fold (recount_one fl path) ws acc) = sum_floats fl (map pp_LastRequestMemory cs) (rc_mem acc)"
  unfolding cs_def
  by (induction ws arbitrary: acc) (simp_all add: recount_one_simps sum_floats_def)

lemma strip_query_clean: "CHR ''?'' \<notin> set (strip_query uri)"
proof (induction uri)
  case (Cons c uri)
  then show ?case
    by (auto simp: strip_query_def split: option.splits if_splits)
qed (simp add: strip_query_def)

text \<open>The workers a recount works on, and those whose requests the averages are taken over.\<close>

abbreviation stripped :: "'f pool \<Rightarrow> 'f pool_process list" where
  "stripped p \<equiv> map (\<lambda>w. w\<lparr>pp_RequestURI := strip_query (pp_RequestURI w)\<rparr>) (po_Processes p)"

abbreviation sampled :: "string \<Rightarrow> 'f pool \<Rightarrow> 'f pool_process list" where
  "sampled path p \<equiv> filter (\<lambda>w. counted path (pp_RequestURI w)) (stripped p)"

text \<open>
  C21. A recount keeps the workers but strips every query string, counts them by state from the list
  itself, and averages CPU and memory over exactly the workers that were not serving the status page
  or the probe; with no such worker the averages are left alone.
\<close>

theorem recountProcesses_counts:
  "let p' = recountProcesses fl path p; n = fl_of_nat fl (length (sampled path p)) in
     po_Processes p' = stripped p \<and>
     list_all (\<lambda>w. CHR ''?'' \<notin> set (pp_RequestURI w)) (po_Processes p') \<and>
     po_ActiveProcesses p' = word_of_nat (length (filter is_active (po_Processes p))) \<and>
     po_IdleProcesses p' = word_of_nat (length (filter is_idle (po_Processes p))) \<and>
     po_TotalProcesses p' = word_of_nat (length (po_Processes p)) \<and>
     (if sampled path p = [] then po_ProcessesCpu p' = po_ProcessesCpu p \<and> po_ProcessesMemory p' = po_ProcessesMemory p
      else po_ProcessesCpu p' = Some (fl_div fl (sum_floats fl (map pp_LastRequestCPU (sampled path p)) (fl_zero fl)) n) \<and>
           po_ProcessesMemory p' = Some (fl_div fl (sum_floats fl (map pp_LastRequestMemory (sampled path p)) (fl_zero fl)) n))"
proof -
  have states: "length (filter is_active (stripped p)) = length (filter is_active (po_Processes p))"
    "length (filter is_idle (stripped p)) = length (filter is_idle (po_Processes p))"
    by (simp_all add: filter_map o_def)
  define ws where "ws = stripped p"
  have clean: "list_all (\<lambda>w. CHR ''?'' \<notin> set (pp_RequestURI w)) ws"
    by (simp add: ws_def list_all_iff strip_query_clean)
  show ?thesis
    unfolding recountProcesses_def Let_def ws_def [symmetric]
    using states [folded ws_def] clean
    by (simp add: recount_fold) (simp add: ws_def)
qed

lemma sint_word_of_nat: "n < 2 ^ 63 \<Longrightarrow> sint (word_of_nat n :: int64) = int n"
  by (simp add: sint_uint uint_nat unat_of_nat take_bit_int_eq_self signed_take_bit_int_eq_self)

text \<open>
  The three counts are consistent as signed 64-bit numbers: none is negative, and the active and the
  idle workers together are at most the total, which is the length of the list.
\<close>

theorem recountProcesses_bounds:
  assumes "length (po_Processes p) < 2 ^ 63"
  shows "let p' = recountProcesses fl path p in
    0 \<le> sint (po_ActiveProcesses p') \<and> 0 \<le> sint (po_IdleProcesses p') \<and>
    sint (po_ActiveProcesses p') + sint (po_IdleProcesses p') \<le> sint (po_TotalProcesses p') \<and>
    sint (po_TotalProcesses p') = int (length (po_Processes p))"
proof -
  have sum: "length (filter is_active ws) + length (filter is_idle ws) \<le> length ws" for ws :: "'a pool_process list"
    by (induction ws) (auto dest: idle_not_active)
  have count: "po_ActiveProcesses (recountProcesses fl path p) = word_of_nat (length (filter is_active (po_Processes p)))"
    "po_IdleProcesses (recountProcesses fl path p) = word_of_nat (length (filter is_idle (po_Processes p)))"
    "po_TotalProcesses (recountProcesses fl path p) = word_of_nat (length (po_Processes p))"
    by (simp_all add: recountProcesses_def Let_def recount_fold filter_map o_def)
  have "length (filter is_active (po_Processes p)) < 2 ^ 63" "length (filter is_idle (po_Processes p)) < 2 ^ 63"
    using assms sum [of "po_Processes p"] by linarith+
  with assms sum [of "po_Processes p"] show ?thesis
    unfolding Let_def count by (simp add: sint_word_of_nat)
qed

definition fl_demo :: "int floats" where
  "fl_demo = \<lparr>fl_zero = 0, fl_add = (+), fl_div = (div), fl_of_nat = int\<rparr>"

theorem recountProcesses_bounds_witness:
  "sint (po_TotalProcesses (recountProcesses fl_demo ''/status'' (demo_pool\<lparr>po_Processes := [demo_worker 7 ''Idle'' ''/a'']\<rparr>))) = 1"
  using recountProcesses_bounds [of "demo_pool\<lparr>po_Processes := [demo_worker 7 ''Idle'' ''/a'']\<rparr>" fl_demo "''/status''"]
  by (simp add: Let_def)

section \<open>A scrape on a concrete host\<close>

definition demo_env :: "(unit, int) scrape_env" where
  "demo_env =
     \<lparr>se_json = demo_json, se_floats = fl_demo, se_client = demo_client, se_order = rev, se_pool_order = rev,
      se_await = (\<lambda>_ _. Inl (WaitEnded [])), se_script_io = demo_io, se_deadline = None, se_host = demo_host, se_run = (\<lambda>_. demo_host)\<rparr>"

definition demo_shared :: shared where
  "demo_shared = \<lparr>sh_config = empty_cache, sh_info = empty_info, sh_script = (Map.empty, \<lparr>ss_path = [], ss_err = None\<rparr>)\<rparr>"

lemma scrape_succeeds:
  "scrape_status env tgt = Inr p0 \<Longrightarrow>
   \<exists>res. oc_Result (fst (scrape env tgt snap sh)) = Some res"
  by (simp add: scrape_def Let_def case_prod_unfold)

lemma demo_read:
  "scrape_status demo_env demo_scrape_target =
     Inr (demo_pool\<lparr>po_ActiveProcesses := 1, po_IdleProcesses := 1, po_TotalProcesses := 2, po_ListenQueue := 4,
       po_Processes := [demo_worker 7 ''Idle'' ''/a?k=v'', demo_worker 8 ''Running'' ''/status''],
       po_Address := ''/w.sock'', po_Path := ''/status''\<rparr>)"
proof -
  have "equal_fold id ''www'' ''WWW''" by code_simp
  then show ?thesis
    by (simp add: demo_env_def demo_json_def readStatus_def demo_scrape_target_def statusAddress_def ParseAddress_def
        demo_client_def status_pool_def checkIsStatusFor_def demo_pool_def)
qed

theorem scrape_publishes_only_allowed_witness:
  "\<exists>res. oc_Result (fst (scrape demo_env demo_scrape_target None demo_shared)) = Some res \<and>
     ''env[DB_PASSWORD]'' \<notin> fst ` set (sr_Global res)"
proof -
  obtain res where res: "oc_Result (fst (scrape demo_env demo_scrape_target None demo_shared)) = Some res"
    using scrape_succeeds [OF demo_read] by blast
  have secret: "\<not> published ''env[DB_PASSWORD]''" by code_simp
  from scrape_publishes_only_allowed [OF res] have "list_all (\<lambda>(k, v). published k) (sr_Global res)" by blast
  with secret have "''env[DB_PASSWORD]'' \<notin> fst ` set (sr_Global res)" by (auto simp: list_all_iff)
  with res show ?thesis by blast
qed

text \<open>A pool that answers nobody who would wait for more than three seconds.\<close>

definition impatient_client :: "(unit, int) fcgx" where
  "impatient_client = demo_client\<lparr>fc_dial := (\<lambda>ctx _ _. case ctx of None \<Rightarrow> Some ''late'' | Some d \<Rightarrow>
     if 3000000000 < d then Some ''late'' else None)\<rparr>"

definition patient_await :: "deadline \<Rightarrow> nat \<Rightarrow> info_result" where
  "patient_await ctx _ = Inl (WaitEnded (case ctx of None \<Rightarrow> ''never'' | Some d \<Rightarrow> if 3000000000 < d then ''late'' else []))"

theorem scrape_respects_deadlines_witness:
  "scrape (demo_env\<lparr>se_client := impatient_client, se_run := (\<lambda>_. demo_host), se_await := patient_await\<rparr>) demo_scrape_target None demo_shared =
     scrape demo_env demo_scrape_target None demo_shared"
proof (rule scrape_respects_deadlines)
  have now: "h_now (se_host demo_env) = 0" "dialTimeout demo_scrape_target = 3000000000"
    by (simp_all add: demo_env_def demo_host_def dialTimeout_def DefaultTimeout_def demo_scrape_target_def)
  show "\<forall>d. d \<le> h_now (se_host demo_env) + dialTimeout demo_scrape_target \<and>
      (se_deadline demo_env = None \<or> (\<exists>u. se_deadline demo_env = Some u \<and> d \<le> u)) \<longrightarrow>
      fc_dial impatient_client (Some d) = fc_dial (se_client demo_env) (Some d) \<and>
      fc_get impatient_client (Some d) = fc_get (se_client demo_env) (Some d) \<and>
      demo_host = se_run demo_env (Some d) \<and> patient_await (Some d) = se_await demo_env (Some d)"
    unfolding now by (simp add: impatient_client_def patient_await_def demo_env_def demo_client_def fun_eq_iff)
qed (simp_all add: impatient_client_def demo_env_def)

theorem pool_section_unambiguous_witness:
  "pool_section id rev ''www'' [(''api'', []), (''Www'', [(''pm'', ''static'')])] = Some [(''pm'', ''static'')]"
proof -
  let ?pools = "[(''api'', []), (''Www'', [(''pm'', ''static'')])]"
  have "\<not> equal_fold id ''api'' ''www''" "equal_fold id ''Www'' ''www''" by code_simp+
  then have "{m \<in> set ?pools. equal_fold id (fst m) ''www''} = {(''Www'', [(''pm'', ''static'')])}" by auto
  then have "map_of ?pools ''www'' = None \<and> (\<exists>sec. {m \<in> set ?pools. equal_fold id (fst m) ''www''} = {(sec, [(''pm'', ''static'')])})"
    by auto
  moreover have "gomap_ok ?pools" by simp
  ultimately show ?thesis
    using pool_section_unambiguous [of ?pools rev id "''www''" "[(''pm'', ''static'')]"] by simp
qed

end
