(* ===== verification/Scrape_All.thy ===== *)
theory Scrape_All
  imports Metrics
begin

text \<open>
  \<^verbatim>\<open>ScrapeAll\<close> of \<^verbatim>\<open>metrics.go\<close>: one goroutine per target, a buffered channel of slots that bounds how many
  scrape at once, results written by index, and the wait for all of them. A goroutine takes a slot,
  scrapes and writes its outcome, gives the slot back and is done; \<open>round_step\<close> is one such move of
  one goroutine. A single scrape is a step here: what it can come out as is \<open>may_scrape\<close>, for any state of
  the shared caches and any host, with the one snapshot of the process table that the round shares.
\<close>

section \<open>The round\<close>

datatype goroutine = Queued | InFlight | Written | Exited

record 'f round_state =
  ra_go :: "goroutine list"
  ra_outcomes :: "'f outcome list"
  ra_slots :: nat

definition slot_capacity :: "nat \<Rightarrow> nat \<Rightarrow> nat" where
  "slot_capacity n cpus = min n (max 4 cpus)"

definition zero_outcome :: "'f outcome" where
  "zero_outcome = \<lparr>oc_Name = [], oc_Socket = [], oc_Result = None, oc_Err = None\<rparr>"

definition round_start :: "target list \<Rightarrow> 'f round_state" where
  "round_start targets =
     \<lparr>ra_go = replicate (length targets) Queued, ra_outcomes = replicate (length targets) zero_outcome, ra_slots = 0\<rparr>"

definition may_scrape :: "'r itself \<Rightarrow> snapshot option \<Rightarrow> target \<Rightarrow> 'f outcome \<Rightarrow> bool" where
  "may_scrape R snap tgt out \<longleftrightarrow> (\<exists>(env :: ('r, 'f) scrape_env) sh. out = fst (scrape env tgt snap sh))"

inductive round_step ::
  "'r itself \<Rightarrow> snapshot option \<Rightarrow> nat \<Rightarrow> target list \<Rightarrow> 'f round_state \<Rightarrow> 'f round_state \<Rightarrow> bool"
  for R snap cpus targets where
  acquire: "i < length targets \<Longrightarrow> ra_go r ! i = Queued \<Longrightarrow> ra_slots r < slot_capacity (length targets) cpus \<Longrightarrow>
    round_step R snap cpus targets r (r\<lparr>ra_go := (ra_go r)[i := InFlight], ra_slots := ra_slots r + 1\<rparr>)"
| finish: "i < length targets \<Longrightarrow> ra_go r ! i = InFlight \<Longrightarrow> may_scrape R snap (targets ! i) out \<Longrightarrow>
    round_step R snap cpus targets r (r\<lparr>ra_go := (ra_go r)[i := Written], ra_outcomes := (ra_outcomes r)[i := out]\<rparr>)"
| release: "i < length targets \<Longrightarrow> ra_go r ! i = Written \<Longrightarrow>
    round_step R snap cpus targets r (r\<lparr>ra_go := (ra_go r)[i := Exited], ra_slots := ra_slots r - 1\<rparr>)"

text \<open>What \<^verbatim>\<open>wg.Wait\<close> waits for, and what is returned then.\<close>

definition round_over :: "'f round_state \<Rightarrow> bool" where
  "round_over r \<longleftrightarrow> list_all (\<lambda>g. g = Exited) (ra_go r)"

datatype scrape_all_error = AllFailed nat

definition ScrapeAll_result :: "'f outcome list \<Rightarrow> 'f outcome list \<times> scrape_all_error option" where
  "ScrapeAll_result outcomes =
     (outcomes,
      if 0 < length outcomes \<and> \<not> list_ex (\<lambda>out. oc_Err out = None) outcomes
      then Some (AllFailed (length outcomes)) else None)"

section \<open>The invariant\<close>

definition holds_slot :: "goroutine \<Rightarrow> bool" where
  "holds_slot g \<longleftrightarrow> g = InFlight \<or> g = Written"

definition round_inv :: "'r itself \<Rightarrow> snapshot option \<Rightarrow> nat \<Rightarrow> target list \<Rightarrow> 'f round_state \<Rightarrow> bool" where
  "round_inv R snap cpus targets r \<longleftrightarrow>
     length (ra_go r) = length targets \<and> length (ra_outcomes r) = length targets \<and>
     ra_slots r = length (filter holds_slot (ra_go r)) \<and> ra_slots r \<le> slot_capacity (length targets) cpus \<and>
     (\<forall>i < length targets. ra_go r ! i = Written \<or> ra_go r ! i = Exited \<longrightarrow>
        may_scrape R snap (targets ! i) (ra_outcomes r ! i))"

text \<open>The work left: three moves for each goroutine.\<close>

fun moves_left :: "goroutine \<Rightarrow> nat" where
  "moves_left Queued = 3"
| "moves_left InFlight = 2"
| "moves_left Written = 1"
| "moves_left Exited = 0"

definition round_work :: "'f round_state \<Rightarrow> nat" where
  "round_work r = (\<Sum>g\<leftarrow>ra_go r. moves_left g)"

lemma filter_update:
  assumes "i < length xs"
  shows "length (filter P (xs[i := x])) + (if P (xs ! i) then 1 else 0) = length (filter P xs) + (if P x then 1 else 0)"
  using assms
proof (induction xs arbitrary: i)
  case (Cons y ys)
  then show ?case by (cases i) auto
qed simp

lemma sum_list_update_nat:
  fixes f :: "'a \<Rightarrow> nat"
  assumes "i < length xs"
  shows "(\<Sum>y\<leftarrow>xs[i := x]. f y) + f (xs ! i) = (\<Sum>y\<leftarrow>xs. f y) + f x"
  using assms
proof (induction xs arbitrary: i)
  case (Cons y ys)
  then show ?case by (cases i) auto
qed simp

lemma round_inv_start: "round_inv R snap cpus targets (round_start targets)"
  by (simp add: round_inv_def round_start_def holds_slot_def)

lemma round_work_start: "round_work (round_start targets) = 3 * length targets"
  by (simp add: round_work_def round_start_def sum_list_replicate)

lemma round_inv_step:
  assumes "round_step R snap cpus targets r r'" and "round_inv R snap cpus targets r"
  shows "round_inv R snap cpus targets r'"
  using assms
proof (induction rule: round_step.induct)
  case (acquire i r)
  then show ?case
    using filter_update [of i "ra_go r" holds_slot InFlight]
    by (auto simp: round_inv_def holds_slot_def nth_list_update)
next
  case (finish i r out)
  then show ?case
    using filter_update [of i "ra_go r" holds_slot Written]
    by (auto simp: round_inv_def holds_slot_def nth_list_update)
next
  case (release i r)
  then show ?case
    using filter_update [of i "ra_go r" holds_slot Exited]
    by (auto simp: round_inv_def holds_slot_def nth_list_update)
qed

lemma round_work_step:
  assumes "round_step R snap cpus targets r r'" and "round_inv R snap cpus targets r"
  shows "round_work r' < round_work r"
  using assms
proof (induction rule: round_step.induct)
  case (acquire i r)
  then show ?case
    using sum_list_update_nat [of i "ra_go r" moves_left InFlight] by (simp add: round_work_def round_inv_def)
next
  case (finish i r out)
  then show ?case
    using sum_list_update_nat [of i "ra_go r" moves_left Written] by (simp add: round_work_def round_inv_def)
next
  case (release i r)
  then show ?case
    using sum_list_update_nat [of i "ra_go r" moves_left Exited] by (simp add: round_work_def round_inv_def)
qed

lemma round_progress:
  assumes "round_inv R snap cpus targets r" and "\<not> round_over r"
  shows "\<exists>r'. round_step R snap cpus targets r r'"
proof (cases "\<exists>i < length targets. holds_slot (ra_go r ! i)")
  case True
  then obtain i where i: "i < length targets" "ra_go r ! i = InFlight \<or> ra_go r ! i = Written"
    by (auto simp: holds_slot_def)
  have "\<exists>out. may_scrape R snap (targets ! i) out" by (auto simp: may_scrape_def)
  with i show ?thesis using round_step.finish [of i targets r] round_step.release [of i targets r] by blast
next
  case False
  have len: "length (ra_go r) = length targets" using assms(1) by (simp add: round_inv_def)
  have "filter holds_slot (ra_go r) = []"
    using False len by (auto simp: filter_empty_conv in_set_conv_nth)
  then have "ra_slots r = 0" using assms(1) by (simp add: round_inv_def)
  obtain i where i: "i < length targets" "ra_go r ! i \<noteq> Exited"
    using assms(2) len by (auto simp: round_over_def list_all_length)
  then have "ra_go r ! i = Queued" using False by (cases "ra_go r ! i") (auto simp: holds_slot_def)
  moreover have "0 < slot_capacity (length targets) cpus" using i(1) by (auto simp: slot_capacity_def)
  ultimately show ?thesis
    using round_step.acquire [of i targets r] i(1) \<open>ra_slots r = 0\<close> by force
qed

section \<open>Every round ends\<close>

interpretation scrape_round: draining_system "\<lambda>r. r = round_start targets" "round_step R snap cpus targets"
    "round_inv R snap cpus targets" round_work round_over
  for R :: "'r itself" and snap cpus targets
  by unfold_locales (auto intro: round_inv_start round_inv_step round_work_step round_progress)

text \<open>
  C15. However the goroutines interleave, no more than the capacity of the slots scrape at once: the number
  of targets, or the larger of four and the number of CPUs when that is less.
\<close>

theorem ScrapeAll_bounded:
  assumes "reachable (\<lambda>r. r = round_start targets) (round_step R snap cpus targets) r"
  shows "length (filter (\<lambda>g. g = InFlight) (ra_go r)) \<le> min (length targets) (max 4 cpus)"
proof -
  have "round_inv R snap cpus targets r"
    using scrape_round.reachable_inv [OF assms] .
  moreover have "length (filter (\<lambda>g. g = InFlight) gs) \<le> length (filter holds_slot gs)" for gs
    by (induction gs) (auto simp: holds_slot_def)
  then have "length (filter (\<lambda>g. g = InFlight) (ra_go r)) \<le> length (filter holds_slot (ra_go r))" .
  ultimately show ?thesis by (simp add: round_inv_def slot_capacity_def)
qed

text \<open>
  C13. A round always comes to its end: after at most three moves per target nothing moves any more, and
  when nothing can move every goroutine has exited; from every point of a round its end can be reached.
\<close>

theorem ScrapeAll_terminates:
  assumes "((round_step R snap cpus targets) ^^ n) (round_start targets) r"
  shows "n \<le> 3 * length targets \<and> ((\<exists>r'. round_step R snap cpus targets r r') \<or> round_over r) \<and>
    (\<exists>r'. (round_step R snap cpus targets)\<^sup>*\<^sup>* r r' \<and> round_over r')"
proof -
  have run: "n + round_work r \<le> 3 * length targets" "round_inv R snap cpus targets r"
    using scrape_round.run_length [OF assms round_inv_start] by (simp_all add: round_work_start)
  then show ?thesis
    using round_progress [OF run(2)] scrape_round.drains [OF run(2)] by auto
qed

section \<open>What a round returns\<close>

lemma scrape_outcome:
  "oc_Socket (fst (scrape env tgt snap sh)) = statusAddress tgt"
  "oc_Result (fst (scrape env tgt snap sh)) = None \<longleftrightarrow> oc_Err (fst (scrape env tgt snap sh)) \<noteq> None"
  "t_Name tgt \<noteq> [] \<Longrightarrow> oc_Name (fst (scrape env tgt snap sh)) = t_Name tgt"
  by (simp_all add: scrape_def Let_def case_prod_unfold label_def split: sum.splits)

text \<open>
  C14. A round that is over returns one outcome per target, in the order of the targets, each with that
  target's address, and either a result or an error but not both; the call as a whole fails exactly when
  there are targets and every one of them failed.
\<close>

theorem ScrapeAll_outcomes:
  assumes "reachable (\<lambda>r. r = round_start targets) (round_step R snap cpus targets) r" and "round_over r"
  shows "list_all2 (may_scrape R snap) targets (fst (ScrapeAll_result (ra_outcomes r))) \<and>
    map oc_Socket (fst (ScrapeAll_result (ra_outcomes r))) = map statusAddress targets \<and>
    list_all (\<lambda>out. (oc_Result out = None) \<noteq> (oc_Err out = None)) (ra_outcomes r) \<and>
    (snd (ScrapeAll_result (ra_outcomes r)) = None \<longleftrightarrow>
       targets = [] \<or> list_ex (\<lambda>out. oc_Err out = None) (ra_outcomes r))"
proof -
  have inv: "round_inv R snap cpus targets r"
    using scrape_round.reachable_inv [OF assms(1)] .
  then have all: "list_all2 (may_scrape R snap) targets (ra_outcomes r)"
    using assms(2) by (auto simp: round_inv_def round_over_def list_all_length list_all2_conv_all_nth)
  then have "list_all2 (\<lambda>t out. oc_Socket out = statusAddress t \<and> (oc_Result out = None) \<noteq> (oc_Err out = None))
      targets (ra_outcomes r)"
    by (rule list_all2_mono) (auto simp: may_scrape_def scrape_outcome)
  then have "map oc_Socket (ra_outcomes r) = map statusAddress targets \<and>
      list_all (\<lambda>out. (oc_Result out = None) \<noteq> (oc_Err out = None)) (ra_outcomes r)"
    by (induction rule: list_all2_induct) auto
  moreover have "ra_outcomes r = [] \<longleftrightarrow> targets = []" using all by auto
  ultimately show ?thesis using all by (auto simp: ScrapeAll_result_def)
qed

section \<open>A round with one target\<close>

definition demo_outcome :: "int outcome" where
  "demo_outcome = fst (scrape demo_env demo_scrape_target None demo_shared)"

definition demo_round :: "goroutine \<Rightarrow> int outcome \<Rightarrow> nat \<Rightarrow> int round_state" where
  "demo_round g out n = \<lparr>ra_go = [g], ra_outcomes = [out], ra_slots = n\<rparr>"

abbreviation demo_step :: "int round_state \<Rightarrow> int round_state \<Rightarrow> bool" where
  "demo_step \<equiv> round_step TYPE(unit) None 1 [demo_scrape_target]"

lemma demo_round_steps:
  "demo_step (round_start [demo_scrape_target]) (demo_round InFlight zero_outcome 1)"
  "demo_step (demo_round InFlight zero_outcome 1) (demo_round Written demo_outcome 1)"
  "demo_step (demo_round Written demo_outcome 1) (demo_round Exited demo_outcome 0)"
proof -
  show "demo_step (round_start [demo_scrape_target]) (demo_round InFlight zero_outcome 1)"
    using round_step.acquire [where R = "TYPE(unit)" and snap = None and cpus = 1 and targets = "[demo_scrape_target]"
        and r = "round_start [demo_scrape_target]" and i = 0]
    by (simp add: round_start_def demo_round_def slot_capacity_def)
  have "may_scrape TYPE(unit) None demo_scrape_target demo_outcome"
    unfolding may_scrape_def demo_outcome_def by blast
  then show "demo_step (demo_round InFlight zero_outcome 1) (demo_round Written demo_outcome 1)"
    using round_step.finish [where R = "TYPE(unit)" and snap = None and cpus = 1 and targets = "[demo_scrape_target]"
        and r = "demo_round InFlight zero_outcome 1" and i = 0 and out = demo_outcome]
    by (simp add: demo_round_def)
  show "demo_step (demo_round Written demo_outcome 1) (demo_round Exited demo_outcome 0)"
    using round_step.release [where R = "TYPE(unit)" and snap = None and cpus = 1 and targets = "[demo_scrape_target]"
        and r = "demo_round Written demo_outcome 1" and i = 0]
    by (simp add: demo_round_def)
qed

lemma demo_run:
  "reachable (\<lambda>r. r = round_start [demo_scrape_target]) demo_step (demo_round InFlight zero_outcome 1)"
  "reachable (\<lambda>r. r = round_start [demo_scrape_target]) demo_step (demo_round Exited demo_outcome 0)"
proof -
  show first: "reachable (\<lambda>r. r = round_start [demo_scrape_target]) demo_step (demo_round InFlight zero_outcome 1)"
    by (rule reachable.move, rule reachable_origin, rule demo_round_steps(1))
  show "reachable (\<lambda>r. r = round_start [demo_scrape_target]) demo_step (demo_round Exited demo_outcome 0)"
    by (rule reachable.move, rule reachable.move, rule first, rule demo_round_steps(2), rule demo_round_steps(3))
qed

theorem ScrapeAll_bounded_witness:
  "length (filter (\<lambda>g. g = InFlight) (ra_go (demo_round InFlight zero_outcome 1))) \<le> 1"
  using ScrapeAll_bounded [OF demo_run(1)] by simp

theorem ScrapeAll_terminates_witness:
  "\<exists>r'. demo_step\<^sup>*\<^sup>* (demo_round InFlight zero_outcome 1) r' \<and> round_over r'"
proof -
  have "(demo_step ^^ 1) (round_start [demo_scrape_target]) (demo_round InFlight zero_outcome 1)"
    using demo_round_steps(1) by (simp add: relcompp.simps)
  from ScrapeAll_terminates [OF this] show ?thesis by blast
qed

theorem ScrapeAll_outcomes_witness: "oc_Socket demo_outcome = ''/w.sock''"
proof -
  have "round_over (demo_round Exited demo_outcome 0)" by (simp add: round_over_def demo_round_def)
  from ScrapeAll_outcomes [OF demo_run(2) this] show ?thesis
    by (simp add: ScrapeAll_result_def demo_round_def demo_scrape_target_def statusAddress_def)
qed

end
