(* ===== verification/Clone.thy ===== *)
theory Clone
  imports Pool_Types
begin

text \<open>
  The copies that the caches hand out: \<^verbatim>\<open>(*EffectiveConfig).clone\<close> of config.go and \<^verbatim>\<open>(*Info).clone\<close> of
  info.go, on an explicit heap. Maps, slices and structs are objects at addresses, assignment to a map
  changes the object, and a new object gets the next free address. The other theories pass these
  values by copy; the theorems here say that the program may be read that way, because a copy shares no
  object with the cached value: whatever a caller does to its copy, the cached value stays what it was.
\<close>

section \<open>The heap\<close>

datatype obj =
    StrMap strmap
  | PoolMap "nat gomap"
  | ConfigObj nat nat
  | Slice "string list"
  | InfoObj string "nat option"

record heap =
  hp_obj :: "nat \<rightharpoonup> obj"
  hp_next :: nat

definition new :: "obj \<Rightarrow> heap \<Rightarrow> nat \<times> heap" where
  "new ob h = (hp_next h, \<lparr>hp_obj = (hp_obj h)(hp_next h \<mapsto> ob), hp_next = hp_next h + 1\<rparr>)"

definition put :: "nat \<Rightarrow> obj \<Rightarrow> heap \<Rightarrow> heap" where
  "put a ob h = h\<lparr>hp_obj := (hp_obj h)(a \<mapsto> ob)\<rparr>"

text \<open>Reading a map at an address; a missing map reads as an empty one, as Go's nil map does.\<close>

definition str_map :: "heap \<Rightarrow> nat \<Rightarrow> strmap" where
  "str_map h a = (case hp_obj h a of Some (StrMap m) \<Rightarrow> m | _ \<Rightarrow> [])"

definition pool_map_at :: "heap \<Rightarrow> nat \<Rightarrow> nat gomap" where
  "pool_map_at h a = (case hp_obj h a of Some (PoolMap m) \<Rightarrow> m | _ \<Rightarrow> [])"

section \<open>clone\<close>

text \<open>The loop that copies a map entry by entry, in the order in which Go ranges over it.\<close>

fun copy_entries :: "strmap \<Rightarrow> strmap \<Rightarrow> strmap" where
  "copy_entries [] acc = acc"
| "copy_entries ((k, v) # m) acc = copy_entries m (AList.update k v acc)"

fun clone_pools :: "(strmap \<Rightarrow> strmap) \<Rightarrow> nat \<Rightarrow> nat gomap \<Rightarrow> heap \<Rightarrow> heap" where
  "clone_pools order out [] h = h"
| "clone_pools order out ((name, pool) # rest) h =
     (let (copied, h1) = new (StrMap []) h;
          h2 = put copied (StrMap (copy_entries (order (str_map h1 pool)) [])) h1;
          h3 = put out (PoolMap (AList.update name copied (pool_map_at h2 out))) h2
      in clone_pools order out rest h3)"

definition config_clone ::
  "(strmap \<Rightarrow> strmap) \<Rightarrow> (nat gomap \<Rightarrow> nat gomap) \<Rightarrow> nat option \<Rightarrow> heap \<Rightarrow> nat option \<times> heap" where
  "config_clone order pool_order c h =
     (case c of
        None \<Rightarrow> (None, h)
      | Some a \<Rightarrow>
          (case hp_obj h a of
             Some (ConfigObj g p) \<Rightarrow>
               let (g', h1) = new (StrMap []) h;
                   (p', h2) = new (PoolMap []) h1;
                   (out, h3) = new (ConfigObj g' p') h2;
                   h4 = put g' (StrMap (copy_entries (order (str_map h3 g)) [])) h3
               in (Some out, clone_pools order p' (pool_order (pool_map_at h4 p)) h4)
           | _ \<Rightarrow> (None, h)))"

definition info_clone :: "nat option \<Rightarrow> heap \<Rightarrow> nat option \<times> heap" where
  "info_clone i h =
     (case i of
        None \<Rightarrow> (None, h)
      | Some a \<Rightarrow>
          (case hp_obj h a of
             Some (InfoObj version exts) \<Rightarrow>
               (case exts of
                  None \<Rightarrow> (case new (InfoObj version None) h of (out, h1) \<Rightarrow> (Some out, h1))
                | Some e \<Rightarrow>
                    (case hp_obj h e of
                       Some (Slice xs) \<Rightarrow>
                         (case new (Slice xs) h of (e', h1) \<Rightarrow>
                            case new (InfoObj version (Some e')) h1 of (out, h2) \<Rightarrow> (Some out, h2))
                     | _ \<Rightarrow> (None, h)))
           | _ \<Rightarrow> (None, h)))"

section \<open>What a caller sees\<close>

text \<open>A configuration as its readers see it: lookups in the global settings and in each pool. And the
  objects it is made of.\<close>

definition pools_view :: "heap \<Rightarrow> nat \<Rightarrow> string \<rightharpoonup> (string \<rightharpoonup> string)" where
  "pools_view h p name = map_option (\<lambda>q. map_of (str_map h q)) (map_of (pool_map_at h p) name)"

definition config_view :: "heap \<Rightarrow> nat \<Rightarrow> ((string \<rightharpoonup> string) \<times> (string \<rightharpoonup> (string \<rightharpoonup> string))) option" where
  "config_view h a =
     (case hp_obj h a of
        Some (ConfigObj g p) \<Rightarrow>
          Some (map_of (str_map h g), pools_view h p)
      | _ \<Rightarrow> None)"

definition config_parts :: "heap \<Rightarrow> nat \<Rightarrow> nat set" where
  "config_parts h a =
     (case hp_obj h a of
        Some (ConfigObj g p) \<Rightarrow> {a, g, p} \<union> snd ` set (pool_map_at h p)
      | _ \<Rightarrow> {a})"

definition config_ok_at :: "heap \<Rightarrow> nat \<Rightarrow> bool" where
  "config_ok_at h a \<longleftrightarrow>
     (\<exists>g p. hp_obj h a = Some (ConfigObj g p) \<and> gomap_ok (str_map h g) \<and> gomap_ok (pool_map_at h p) \<and>
        (\<forall>q \<in> snd ` set (pool_map_at h p). gomap_ok (str_map h q))) \<and>
     (\<forall>x \<in> config_parts h a. x < hp_next h)"

lemma agree_maps:
  "hp_obj h' a = hp_obj h a \<Longrightarrow> str_map h' a = str_map h a"
  "hp_obj h' a = hp_obj h a \<Longrightarrow> pool_map_at h' a = pool_map_at h a"
  by (simp_all add: str_map_def pool_map_at_def)

text \<open>What a reader sees depends on nothing but the parts.\<close>

lemma config_view_parts:
  assumes "\<forall>x \<in> config_parts h a. hp_obj h' x = hp_obj h x"
  shows "config_view h' a = config_view h a"
proof (cases "\<exists>g p. hp_obj h a = Some (ConfigObj g p)")
  case True
  then obtain g p where gp: "hp_obj h a = Some (ConfigObj g p)" by blast
  with assms have same: "hp_obj h' a = hp_obj h a" "str_map h' g = str_map h g" "pool_map_at h' p = pool_map_at h p"
    and parts: "\<And>q. q \<in> snd ` set (pool_map_at h p) \<Longrightarrow> str_map h' q = str_map h q"
    by (auto simp: config_parts_def intro!: agree_maps)
  have "map_option (\<lambda>q. map_of (str_map h' q)) (map_of (pool_map_at h p) n) =
      map_option (\<lambda>q. map_of (str_map h q)) (map_of (pool_map_at h p) n)" for n
  proof (cases "map_of (pool_map_at h p) n")
    case (Some q)
    then have "q \<in> snd ` set (pool_map_at h p)" by (force dest: map_of_SomeD)
    with Some parts show ?thesis by simp
  qed simp
  with gp same show ?thesis by (simp add: config_view_def pools_view_def fun_eq_iff)
next
  case False
  moreover from assms have "hp_obj h' a = hp_obj h a" by (auto simp: config_parts_def split: option.splits obj.splits)
  ultimately show ?thesis by (auto simp: config_view_def split: option.splits obj.splits)
qed

section \<open>A copy says the same and shares nothing\<close>

lemma copy_entries_append:
  "gomap_ok m \<Longrightarrow> fst ` set m \<inter> fst ` set acc = {} \<Longrightarrow> copy_entries m acc = acc @ m"
proof (induction m acc rule: copy_entries.induct)
  case (2 k v m acc)
  then have "k \<notin> fst ` set acc" and "fst ` set m \<inter> fst ` set (acc @ [(k, v)]) = {}" by auto
  with 2 show ?case by (simp add: update_new)
qed simp

lemma copy_entries_view:
  assumes "gomap_ok m" and "mset (order m) = mset m"
  shows "map_of (copy_entries (order m) []) = map_of m"
proof -
  have "gomap_ok (order m)" using assms by (metis mset_eq_imp_distinct_iff mset_map)
  then show ?thesis using copy_entries_append [of "order m" "[]"] map_of_perm [OF assms] by simp
qed

lemma heap_simps [simp]:
  "fst (new ob h) = hp_next h" "hp_next (snd (new ob h)) = Suc (hp_next h)"
  "hp_obj (snd (new ob h)) = (hp_obj h)(hp_next h \<mapsto> ob)"
  "hp_next (put a ob h) = hp_next h" "hp_obj (put a ob h) = (hp_obj h)(a \<mapsto> ob)"
  by (simp_all add: new_def put_def)

text \<open>The state of the loop over the pools: the map being built holds copies at addresses that did not
  exist before.\<close>

definition copies_ok :: "nat \<Rightarrow> nat \<Rightarrow> heap \<Rightarrow> bool" where
  "copies_ok n out h \<longleftrightarrow>
     n \<le> out \<and> out < hp_next h \<and> (\<exists>acc. hp_obj h out = Some (PoolMap acc)) \<and>
     (\<forall>q \<in> snd ` set (pool_map_at h out). n \<le> q \<and> q < hp_next h \<and> q \<noteq> out)"

text \<open>One pass of the loop, as a change of the heap.\<close>

definition pool_copied :: "(strmap \<Rightarrow> strmap) \<Rightarrow> nat \<Rightarrow> string \<Rightarrow> nat \<Rightarrow> heap \<Rightarrow> heap" where
  "pool_copied order out name pool h =
     \<lparr>hp_obj = (hp_obj h)(hp_next h \<mapsto> StrMap (copy_entries (order (str_map h pool)) []),
                          out \<mapsto> PoolMap (AList.update name (hp_next h) (pool_map_at h out))),
      hp_next = Suc (hp_next h)\<rparr>"

lemma clone_pools_pass:
  assumes "pool < hp_next h" and "out < hp_next h"
  shows "clone_pools order out ((name, pool) # rest) h = clone_pools order out rest (pool_copied order out name pool h)"
proof -
  have "str_map (h\<lparr>hp_obj := (hp_obj h)(hp_next h \<mapsto> ob), hp_next := k\<rparr>) pool = str_map h pool" for ob k
    using assms by (simp add: str_map_def)
  moreover have "pool_map_at (h\<lparr>hp_obj := (hp_obj h)(hp_next h \<mapsto> ob), hp_next := k\<rparr>) out = pool_map_at h out" for ob k
    using assms by (simp add: pool_map_at_def)
  ultimately show ?thesis
    using assms by (simp add: new_def put_def pool_copied_def Let_def str_map_def pool_map_at_def)
qed

lemma pool_copied_keeps:
  assumes "copies_ok n out h" and "pool < n"
  shows "copies_ok n out (pool_copied order out name pool h)"
    and "x < hp_next h \<Longrightarrow> x \<noteq> out \<Longrightarrow> hp_obj (pool_copied order out name pool h) x = hp_obj h x"
    and "pool_map_at (pool_copied order out name pool h) out = AList.update name (hp_next h) (pool_map_at h out)"
    and "str_map (pool_copied order out name pool h) (hp_next h) = copy_entries (order (str_map h pool)) []"
proof -
  have upd: "snd ` set (AList.update name (hp_next h) m) \<subseteq> insert (hp_next h) (snd ` set m)" for m :: "nat gomap"
    by (induction m) auto
  show "pool_map_at (pool_copied order out name pool h) out = AList.update name (hp_next h) (pool_map_at h out)"
    and "str_map (pool_copied order out name pool h) (hp_next h) = copy_entries (order (str_map h pool)) []"
    and "x < hp_next h \<Longrightarrow> x \<noteq> out \<Longrightarrow> hp_obj (pool_copied order out name pool h) x = hp_obj h x"
    using assms(1) by (auto simp: pool_copied_def pool_map_at_def str_map_def copies_ok_def)
  with upd [of "pool_map_at h out"] assms(1) show "copies_ok n out (pool_copied order out name pool h)"
    by (fastforce simp: copies_ok_def pool_copied_def)
qed

lemma pool_copied_view:
  assumes "copies_ok n out h" and "pool < n" and "gomap_ok (str_map h pool)" and "\<And>m. mset (order m) = mset m"
  shows "pools_view (pool_copied order out name pool h) out = (pools_view h out)(name \<mapsto> map_of (str_map h pool))"
proof
  let ?h = "pool_copied order out name pool h"
  note keep = pool_copied_keeps [OF assms(1,2), where order = order and name = name]
  fix nm
  show "pools_view ?h out nm = ((pools_view h out)(name \<mapsto> map_of (str_map h pool))) nm"
  proof (cases "nm = name")
    case True
    then show ?thesis
      using keep(3,4) copy_entries_view [OF assms(3), of order] assms(4) by (simp add: pools_view_def update_conv')
  next
    case False
    have "str_map ?h q = str_map h q" if "map_of (pool_map_at h out) nm = Some q" for q
      using that assms(1) by (intro agree_maps(1) keep(2)) (force simp: copies_ok_def dest: map_of_SomeD)+
    with False keep(3) show ?thesis
      by (cases "map_of (pool_map_at h out) nm") (simp_all add: pools_view_def update_conv')
  qed
qed

text \<open>The whole loop: nothing that existed before changes except the map being built, and that map holds a
  copy of every pool.\<close>

definition pools_cloned :: "nat \<Rightarrow> nat \<Rightarrow> nat gomap \<Rightarrow> heap \<Rightarrow> heap \<Rightarrow> bool" where
  "pools_cloned n out es h h' \<longleftrightarrow>
     copies_ok n out h' \<and> (\<forall>x < hp_next h. x \<noteq> out \<longrightarrow> hp_obj h' x = hp_obj h x) \<and> hp_next h \<le> hp_next h' \<and>
     (\<forall>name. pools_view h' out name =
        (case map_of es name of Some q \<Rightarrow> Some (map_of (str_map h q)) | None \<Rightarrow> pools_view h out name))"

lemma pools_cloned_Cons:
  assumes "copies_ok n out h" and "gomap_ok ((name, pool) # es)" and "pool < n" and "gomap_ok (str_map h pool)"
    and "\<forall>q \<in> snd ` set es. q < n" and "\<And>m. mset (order m) = mset m"
    and rest: "pools_cloned n out es (pool_copied order out name pool h) h'"
  shows "pools_cloned n out ((name, pool) # es) h h'"
proof -
  let ?h = "pool_copied order out name pool h"
  note keep = pool_copied_keeps [OF assms(1,3), where order = order and name = name]
  have "str_map ?h q = str_map h q" if "map_of es nm = Some q" for nm q
  proof -
    have "q < n" using that assms(5) by (force dest: map_of_SomeD)
    then show ?thesis using assms(1) by (intro agree_maps(1) keep(2)) (auto simp: copies_ok_def)
  qed
  moreover have "map_of es name = None" using assms(2) by (auto simp: map_of_eq_None_iff)
  ultimately show ?thesis
    using rest keep(2) pool_copied_view [OF assms(1,3,4,6), where name = name]
    by (auto simp: pools_cloned_def pool_copied_def split: option.splits)
qed

lemma clone_pools_spec:
  assumes "copies_ok n out h" and "gomap_ok es" and "\<forall>q \<in> snd ` set es. q < n \<and> gomap_ok (str_map h q)"
    and "\<And>m. mset (order m) = mset m"
  shows "pools_cloned n out es h (clone_pools order out es h)"
  using assms(1-3)
proof (induction es arbitrary: h)
  case Nil
  then show ?case by (simp add: pools_cloned_def)
next
  case (Cons e es)
  obtain name pool where e: "e = (name, pool)" by fastforce
  let ?h = "pool_copied order out name pool h"
  have pool: "pool < n" "gomap_ok (str_map h pool)" "n \<le> hp_next h" "out < hp_next h" "n \<le> out"
    using Cons.prems e by (auto simp: copies_ok_def)
  note keep = pool_copied_keeps [OF Cons.prems(1) pool(1), where order = order and name = name]
  have "\<forall>q \<in> snd ` set es. q < n \<and> gomap_ok (str_map ?h q)"
  proof
    fix q assume q: "q \<in> snd ` set es"
    then have "str_map ?h q = str_map h q" using Cons.prems(3) pool by (intro agree_maps(1) keep(2)) auto
    with q Cons.prems(3) show "q < n \<and> gomap_ok (str_map ?h q)" by auto
  qed
  then have "pools_cloned n out es ?h (clone_pools order out es ?h)"
    using Cons.IH [OF keep(1)] Cons.prems(2) by simp
  then show ?case
    unfolding e clone_pools_pass [OF order_less_le_trans [OF pool(1,3)] pool(4)]
    using Cons.prems e pool assms(4) by (intro pools_cloned_Cons) auto
qed

text \<open>The heap of a clone before its pools are copied.\<close>

definition clone_frame :: "(strmap \<Rightarrow> strmap) \<Rightarrow> nat \<Rightarrow> heap \<Rightarrow> heap" where
  "clone_frame order g h =
     (let n = hp_next h in
      \<lparr>hp_obj = (hp_obj h)(n \<mapsto> StrMap (copy_entries (order (str_map h g)) []), Suc n \<mapsto> PoolMap [],
                           Suc (Suc n) \<mapsto> ConfigObj n (Suc n)),
       hp_next = Suc (Suc (Suc n))\<rparr>)"

lemma config_clone_frame:
  assumes "hp_obj h a = Some (ConfigObj g p)" and "g < hp_next h" and "p < hp_next h"
  shows "config_clone order pool_order (Some a) h =
    (Some (Suc (Suc (hp_next h))),
     clone_pools order (Suc (hp_next h)) (pool_order (pool_map_at h p)) (clone_frame order g h))"
proof -
  let ?h3 = "\<lparr>hp_obj = (hp_obj h)(hp_next h \<mapsto> StrMap [], Suc (hp_next h) \<mapsto> PoolMap [],
      Suc (Suc (hp_next h)) \<mapsto> ConfigObj (hp_next h) (Suc (hp_next h))), hp_next = Suc (Suc (Suc (hp_next h)))\<rparr>"
  have "put (hp_next h) (StrMap (copy_entries (order (str_map ?h3 g)) [])) ?h3 = clone_frame order g h"
    using assms(2) by (auto simp: put_def clone_frame_def str_map_def Let_def fun_eq_iff)
  moreover have "pool_map_at (clone_frame order g h) p = pool_map_at h p"
    using assms(3) by (simp add: clone_frame_def pool_map_at_def Let_def)
  ultimately show ?thesis using assms(1) by (simp add: config_clone_def new_def Let_def)
qed

lemma clone_frame_facts:
  "copies_ok (hp_next h) (Suc (hp_next h)) (clone_frame order g h)"
  "pools_view (clone_frame order g h) (Suc (hp_next h)) = Map.empty"
  "hp_next (clone_frame order g h) = Suc (Suc (Suc (hp_next h)))"
  "hp_obj (clone_frame order g h) (hp_next h) = Some (StrMap (copy_entries (order (str_map h g)) []))"
  "hp_obj (clone_frame order g h) (Suc (Suc (hp_next h))) = Some (ConfigObj (hp_next h) (Suc (hp_next h)))"
  "x < hp_next h \<Longrightarrow> hp_obj (clone_frame order g h) x = hp_obj h x"
  by (simp_all add: copies_ok_def clone_frame_def Let_def pool_map_at_def pools_view_def fun_eq_iff)

text \<open>The copy is made of the three objects of the frame and the copied pools.\<close>

lemma cloned_config:
  assumes "pools_cloned (hp_next h) (Suc (hp_next h)) es (clone_frame order g h) h'"
    and "hp_obj h a = Some (ConfigObj g p)" and "map_of es = map_of (pool_map_at h p)"
    and "\<forall>q \<in> snd ` set es. q < hp_next h" and "map_of (copy_entries (order (str_map h g)) []) = map_of (str_map h g)"
  shows "config_view h' (Suc (Suc (hp_next h))) = config_view h a"
    and "\<forall>x \<in> config_parts h' (Suc (Suc (hp_next h))). hp_next h \<le> x"
    and "\<forall>x < hp_next h. hp_obj h' x = hp_obj h x"
proof -
  let ?n = "hp_next h" and ?f = "clone_frame order g h"
  have old: "x < Suc (Suc (Suc ?n)) \<Longrightarrow> x \<noteq> Suc ?n \<Longrightarrow> hp_obj h' x = hp_obj ?f x" for x
    using assms(1) by (simp add: pools_cloned_def clone_frame_facts)
  have b: "hp_obj h' (Suc (Suc ?n)) = Some (ConfigObj ?n (Suc ?n))"
    and "map_of (str_map h' ?n) = map_of (str_map h g)"
    using old [of "Suc (Suc ?n)"] old [of ?n] assms(5) by (simp_all add: clone_frame_facts str_map_def)
  moreover have "pools_view h' (Suc ?n) = pools_view h p"
  proof
    fix nm
    have "str_map ?f q = str_map h q" if "map_of es nm = Some q" for q
      using that assms(4) by (intro agree_maps(1) clone_frame_facts(6)) (force dest: map_of_SomeD)
    then show "pools_view h' (Suc ?n) nm = pools_view h p nm"
      using assms(1) by (simp add: pools_cloned_def clone_frame_facts pools_view_def [of h p] assms(3) [symmetric]
          split: option.splits)
  qed
  ultimately show "config_view h' (Suc (Suc ?n)) = config_view h a"
    using assms(2) by (simp add: config_view_def)
  show "\<forall>x \<in> config_parts h' (Suc (Suc ?n)). ?n \<le> x"
    using assms(1) b by (auto simp: config_parts_def pools_cloned_def copies_ok_def)
  show "\<forall>x < ?n. hp_obj h' x = hp_obj h x" using old by (simp add: clone_frame_facts)
qed

lemma config_clone_spec:
  assumes "config_ok_at h a" and "\<And>m. mset (order m) = mset m" and "\<And>m. mset (pool_order m) = mset m"
  obtains b h' where "config_clone order pool_order (Some a) h = (Some b, h')"
    and "config_view h' b = config_view h a" and "\<forall>x \<in> config_parts h' b. hp_next h \<le> x"
    and "\<forall>x < hp_next h. hp_obj h' x = hp_obj h x"
proof -
  obtain g p where gp: "hp_obj h a = Some (ConfigObj g p)" "gomap_ok (str_map h g)" "gomap_ok (pool_map_at h p)"
    "\<forall>q \<in> snd ` set (pool_map_at h p). gomap_ok (str_map h q)" "g < hp_next h" "p < hp_next h"
    "\<forall>q \<in> snd ` set (pool_map_at h p). q < hp_next h"
    using assms(1) by (auto simp: config_ok_at_def config_parts_def)
  let ?f = "clone_frame order g h" and ?es = "pool_order (pool_map_at h p)"
  have es: "set ?es = set (pool_map_at h p)" "gomap_ok ?es" "map_of ?es = map_of (pool_map_at h p)"
    using assms(3) gp(3) map_of_perm [OF gp(3)] by (metis set_mset_mset mset_eq_imp_distinct_iff mset_map)+
  have "str_map ?f q = str_map h q" if "q < hp_next h" for q
    using that by (intro agree_maps(1) clone_frame_facts(6))
  then have "\<forall>q \<in> snd ` set ?es. q < hp_next h \<and> gomap_ok (str_map ?f q)"
    unfolding es(1) using gp(4,7) by auto
  from clone_pools_spec [OF clone_frame_facts(1) es(2) this assms(2)]
  have cloned: "pools_cloned (hp_next h) (Suc (hp_next h)) ?es ?f (clone_pools order (Suc (hp_next h)) ?es ?f)" .
  have below: "\<forall>q \<in> snd ` set ?es. q < hp_next h" unfolding es(1) by (rule gp(7))
  have global: "map_of (copy_entries (order (str_map h g)) []) = map_of (str_map h g)"
    by (rule copy_entries_view [OF gp(2)]) (rule assms(2))
  note parts = cloned_config [OF cloned gp(1) es(3) below global]
  show thesis by (rule that [OF config_clone_frame [OF gp(1,5,6)] parts])
qed

text \<open>
  C23. A copy of a configuration reads exactly like the original, whatever order Go copies the maps in, and
  the two share nothing: after any change of the heap that is confined to the copy's objects and to
  objects that did not exist when it was made, the original still reads as it did.
\<close>

theorem config_clone_isolated:
  assumes "config_ok_at h a" and "\<And>m. mset (order m) = mset m" and "\<And>m. mset (pool_order m) = mset m"
  shows "\<exists>b h'. config_clone order pool_order (Some a) h = (Some b, h') \<and> config_view h' b = config_view h a \<and>
    (\<forall>h''. (\<forall>x. x \<notin> config_parts h' b \<and> x < hp_next h \<longrightarrow> hp_obj h'' x = hp_obj h' x) \<longrightarrow>
       config_view h'' a = config_view h a)"
proof -
  obtain b h' where clone: "config_clone order pool_order (Some a) h = (Some b, h')"
    and view: "config_view h' b = config_view h a" and fresh: "\<forall>x \<in> config_parts h' b. hp_next h \<le> x"
    and old: "\<forall>x < hp_next h. hp_obj h' x = hp_obj h x"
    using config_clone_spec [OF assms] by blast
  have "config_view h'' a = config_view h a"
    if same: "\<forall>x. x \<notin> config_parts h' b \<and> x < hp_next h \<longrightarrow> hp_obj h'' x = hp_obj h' x" for h''
  proof (rule config_view_parts, rule ballI)
    fix x assume "x \<in> config_parts h a"
    then have "x < hp_next h" using assms(1) by (auto simp: config_ok_at_def)
    moreover from this fresh have "x \<notin> config_parts h' b" by (auto simp: not_le)
    ultimately show "hp_obj h'' x = hp_obj h x" using same old by simp
  qed
  with clone view show ?thesis by blast
qed

definition demo_heap :: heap where
  "demo_heap = \<lparr>hp_obj = [0 \<mapsto> StrMap [(''pid'', ''/run/p'')], 1 \<mapsto> StrMap [(''pm'', ''static'')],
     2 \<mapsto> PoolMap [(''www'', 1)], 3 \<mapsto> ConfigObj 0 2], hp_next = 4\<rparr>"

theorem config_clone_isolated_witness:
  "\<exists>b h'. config_clone rev rev (Some 3) demo_heap = (Some b, h') \<and> config_view h' b = config_view demo_heap 3"
proof -
  have "config_ok_at demo_heap 3"
    by (simp add: config_ok_at_def config_parts_def demo_heap_def str_map_def pool_map_at_def)
  from config_clone_isolated [OF this, of rev rev] show ?thesis by auto
qed

text \<open>The same for PHP information: its struct, and its slice of extensions unless that is nil.\<close>

definition info_view :: "heap \<Rightarrow> nat \<Rightarrow> (string \<times> string list option) option" where
  "info_view h a =
     (case hp_obj h a of
        Some (InfoObj v None) \<Rightarrow> Some (v, None)
      | Some (InfoObj v (Some e)) \<Rightarrow> (case hp_obj h e of Some (Slice xs) \<Rightarrow> Some (v, Some xs) | _ \<Rightarrow> None)
      | _ \<Rightarrow> None)"

definition info_parts :: "heap \<Rightarrow> nat \<Rightarrow> nat set" where
  "info_parts h a = insert a (case hp_obj h a of Some (InfoObj v (Some e)) \<Rightarrow> {e} | _ \<Rightarrow> {})"

lemma info_view_parts:
  "\<forall>x \<in> info_parts h a. hp_obj h' x = hp_obj h x \<Longrightarrow> info_view h' a = info_view h a"
  by (auto simp: info_parts_def info_view_def split: option.splits obj.splits)

theorem info_clone_isolated:
  assumes "info_view h a = Some view" and "\<forall>x \<in> info_parts h a. x < hp_next h"
  shows "\<exists>b h'. info_clone (Some a) h = (Some b, h') \<and> info_view h' b = Some view \<and>
    (\<forall>h''. (\<forall>x. x \<notin> info_parts h' b \<and> x < hp_next h \<longrightarrow> hp_obj h'' x = hp_obj h' x) \<longrightarrow> info_view h'' a = Some view)"
proof -
  obtain b h' where clone: "info_clone (Some a) h = (Some b, h')" and view: "info_view h' b = Some view"
    and fresh: "\<forall>x \<in> info_parts h' b. hp_next h \<le> x" and old: "\<forall>x < hp_next h. hp_obj h' x = hp_obj h x"
    using assms(1)
    by (auto simp: info_clone_def info_view_def info_parts_def new_def split: option.splits obj.splits)
  have "info_view h'' a = Some view"
    if same: "\<forall>x. x \<notin> info_parts h' b \<and> x < hp_next h \<longrightarrow> hp_obj h'' x = hp_obj h' x" for h''
  proof -
    have "hp_obj h'' x = hp_obj h x" if "x \<in> info_parts h a" for x
    proof -
      have "x < hp_next h" using that assms(2) by blast
      moreover from this fresh have "x \<notin> info_parts h' b" by (auto simp: not_le)
      ultimately show ?thesis using same old by simp
    qed
    then show ?thesis using info_view_parts [of h a h''] assms(1) by simp
  qed
  with clone view show ?thesis by blast
qed

end
