(* ===== verification/Spec2Isabelle.thy ===== *)
theory Spec2Isabelle
  imports Control Cache_Interleaving Scrape_All Clone
begin

text \<open>
  Verification of \<^verbatim>\<open>github.com/cboxdk/phpfpm\<close>, a Go library that finds the php-fpm masters of a host,
  reads their configuration, scrapes their pools and reloads them safely.

  \<^bold>\<open>The program and its parts.\<close> Discovery (discover.go) looks through the process table for masters and
  asks each one's binary for its effective configuration; the parser and the cache of config.go read
  and keep it. Whatever is executed or believed on the way passes the trust check of trust.go, and
  forked programs run through the bounded runner of run.go. The control operations (control.go) check
  a configuration, recognise a master before signalling it, reload it and watch the reload until a
  master has survived; they ask start_linux.go, start_other.go, zombie_linux.go and zombie_other.go
  about single processes. A scrape (metrics.go) takes a target (target.go), reads the pool's status page
  (status.go), attaches the publishable part of its configuration, measures its workers' memory (rss.go),
  and adds PHP's version (info.go) and cache state (opcache.go). Many scrapes run at once and share the
  caches.

  \<^bold>\<open>What models what.\<close>
  \<^item> \<open>Systems\<close>: step relations, reachable states, and the locales \<open>invariant_system\<close> and
    \<open>draining_system\<close> that the concurrent parts interpret.
  \<^item> \<open>Prelude\<close>, \<open>Go_Strings\<close>, \<open>Go_Path\<close>: what the sources use of Go and its standard library. Maps
    are association lists with distinct keys, integers are words or integers with explicit conversions,
    strings are lists of bytes; \<^verbatim>\<open>strings\<close>, \<^verbatim>\<open>strconv\<close>, \<^verbatim>\<open>bufio.Scanner\<close> and \<^verbatim>\<open>path/filepath\<close> as far
    as they are called.
  \<^item> \<open>Host\<close>: what the program sees of the machine at one instant, the parameter of every operation that
    looks outside, and deadlines of contexts.
  \<^item> \<open>Trust\<close> (trust.go), \<open>Capture\<close> (run.go and the limited writer of config.go), \<open>Config\<close> (the parser of
    config.go), \<open>Config_Cache\<close> (cache and ParseConfigContext of config.go), \<open>Cache_Interleaving\<close> (the same
    calls run beside each other), \<open>Discover\<close> (discover.go, and ParseAddress of metrics.go).
  \<^item> \<open>Process_State\<close> (the four platform files, and sameProcess and processAlive of control.go) and
    \<open>Control\<close> (the rest of control.go).
  \<^item> \<open>Pool_Types\<close> (target.go and the types of metrics.go, info.go and opcache.go), \<open>Rss\<close> (rss.go), \<open>Info\<close>
    (info.go), \<open>Fcgi\<close> (the FastCGI client as a parameter), \<open>Opcache\<close> (opcache.go), \<open>Status\<close> (status.go),
    \<open>Metrics\<close> (one scrape), \<open>Scrape_All\<close> (a round of scrapes), \<open>Clone\<close> (the copies the caches hand out, on
    an explicit heap).
  \<^item> This theory: properties that span components.

  Definitions keep the names of the source. An operation that can fail returns a sum or an option whose
  error type has one constructor per error of the source; an operation that changes state takes and
  returns it; the programs an operation hands to \<^verbatim>\<open>os/exec\<close> and the signals it sends are part of its result. The
  order in which Go ranges over a map is a parameter, and the theorems hold for every permutation.

  \<^bold>\<open>What is shown.\<close> Trust: the check accepts exactly what its specification allows, and nothing that
  discovery, validation or the PHP lookup executes is untrusted. Configuration: the parser inverts the
  report php-fpm prints for a configuration whose names and values fit on a line of it, keeps its
  invariant, and never parses a truncated report; the cache is never stale for files that were
  invalidated after their last change and share their key with no other files, whatever interleaves;
  copies share nothing with the cached value. Control: a signal goes to a verified master only; a reload is reported
  as survived only when a verified master, one and the same process since the watch moved to it, outlived
  the settle window, as dead only when none is there, a daemonized reload is recognised, and the call
  returns unless masters are replaced between every two looks. Scraping: the memory walk equals the sum over
  descendants, the recount agrees with the worker list, the settings published of the host are the
  eleven allowed ones, the right section is attached, every exchange is under a deadline, the status page is the
  right one and complete, lookups coalesce without a lost wake-up, and the status script is the
  program's own. A round of scrapes keeps to its slots, ends, and returns one outcome per target in
  order. Some theorems show where the code falls short of what it says: paths with dot-dot elements
  behind foreign links, a configuration parse without the trust check, short writes at the capture
  limit, colliding cache keys, a foreign file at the script's path, failures inherited from an
  impatient caller, pids wider than 32 bits, a configuration path with an equals sign that is read as a
  setting; a configuration that the status page itself carries is passed on unfiltered.

  \<^bold>\<open>Loops, bounds and time.\<close> The walk up the directories and the walk over descendants are total, with a
  measure each; the latter keeps the source's depth limit of 64. The watching loop of a reload may run
  for ever and is a partial function whose \<open>None\<close> is not returning; a theorem of \<open>Control\<close> says when it
  returns. The host may change between any two looks of that loop, where one call of a helper
  (\<^verbatim>\<open>verifyMaster\<close>, \<^verbatim>\<open>MasterPID\<close>, \<^verbatim>\<open>processAlive\<close>, \<^verbatim>\<open>processStartedAt\<close>, \<^verbatim>\<open>DiscoverMasters\<close>) is one look: a
  \<open>round\<close> has one host per look, and a run is a function from numbers to rounds, so no bound on their number is assumed. Epochs are 64-bit
  words, and the cache property asks for fewer than \<open>2\<^sup>6\<^sup>4\<close> invalidations, after which the source's counter wraps. Sizes and counters are 64-bit
  words that wrap as in Go. Times are integers in nanoseconds.

  \<^bold>\<open>Not modelled.\<close> Log lines, except for the level that two operations choose: nothing depends on them.
  The FastCGI client, gopsutil, the kernel and the programs that are executed: parameters. Process groups
  and the signal that ends one on cancellation: a cancelled run appears as an exit error with the
  context's error. The error of \<^verbatim>\<open>os.FindProcess\<close>, which never fails on Unix. The text syntax of JSON and floating-point arithmetic: parameters, since the
  program decides nothing by them; decoding a JSON value into the program's structures is modelled. The
  Go memory model below the granularity of critical sections and channel operations. Tests,
  documentation and build files.
\<close>

section \<open>Discovery and control agree\<close>

text \<open>
  C24. Every master that discovery lists on a host can be reloaded there: the identity check that guards
  the signal accepts the pid and the configuration path that discovery reported, so a caller that
  passes on what it discovered is not refused while the host stays as it is.
\<close>

theorem discovered_masters_reloadable:
  assumes "coherent h" and "DiscoverMasters h = Inr ms" and "m \<in> set ms" and "0 < m_PID m"
    and "h_signal h (m_PID m) SIGUSR2 = None"
  shows "ReloadMaster h h (m_PID m) (m_ConfigPath m) = (None, [(m_PID m, SIGUSR2)])"
proof -
  from assms(2,3) obtain procs p where "h_processes h = Inr procs" "p \<in> set procs" and m: "master_of h p = Some m"
    by (auto simp: DiscoverMasters_member)
  then have "h_new_process h (go_int32 (m_PID m)) = Inr p"
    using assms(1) by (auto simp: coherent_def master_of_Some)
  with m assms(4) have "verifyMaster h (m_PID m) (m_ConfigPath m) = None"
    by (auto simp: verifyMaster_def master_of_Some)
  with assms(5) show ?thesis by (simp add: ReloadMaster_def reload_def)
qed

theorem discovered_masters_reloadable_witness:
  "ReloadMaster demo_host demo_host 7 ''/etc/f.conf'' = (None, [(7, SIGUSR2)])"
proof -
  let ?m = "\<lparr>m_PID = 7, m_Binary = ''/usr/php-fpm'', m_ConfigPath = ''/etc/f.conf''\<rparr>"
  have "coherent demo_host"
    by (simp add: coherent_def demo_host_def demo_master_def)
  moreover have "DiscoverMasters demo_host = Inr [?m]"
    using demo_master_of by (simp add: DiscoverMasters_def List.map_filter_def demo_host_def)
  moreover have "h_signal demo_host 7 SIGUSR2 = None" by (simp add: demo_host_def)
  ultimately show ?thesis using discovered_masters_reloadable [of demo_host "[?m]" ?m] by simp
qed

section \<open>The probe and the averages\<close>

lemma strip_query_prefix:
  assumes "CHR ''?'' \<notin> set p"
  shows "has_prefix (strip_query (p @ s)) p"
  using assms
proof (induction p)
  case (Cons c p)
  then show ?case
    by (auto simp: strip_query_def split: option.splits)
qed simp

text \<open>
  C25. The program's own requests never enter the averages: a worker that serves the status page, or the
  status script of any reachable state of the script's life, is left out of the recount, with or
  without a query string.
\<close>

theorem own_traffic_excluded:
  assumes "script_reachable (fs, st)" and "io_fresh io (fs, st)" and "opcacheScript io (fs, st) = ((path, None), fs', st')"
    and "CHR ''?'' \<notin> set statusPath"
  shows "\<not> counted statusPath (strip_query (go_index (opcache_env path) ''SCRIPT_NAME'' @ query)) \<and>
    \<not> counted statusPath (strip_query (statusPath @ query))"
proof
  obtain t where "base path = opcacheScriptPrefix @ t"
    using script_path_base opcacheScript_success [OF script_system.reachable_inv [OF assms(1)] assms(2,3)]
    by (auto simp: has_prefix_iff)
  then have name: "go_index (opcache_env path) ''SCRIPT_NAME'' @ query = (''/'' @ opcacheScriptPrefix) @ (t @ query)"
    by (simp add: opcache_env_def go_index_def)
  have "CHR ''?'' \<notin> set (''/'' @ opcacheScriptPrefix)" by (simp add: opcacheScriptPrefix_def)
  from strip_query_prefix [OF this, of "t @ query"]
  show "\<not> counted statusPath (strip_query (go_index (opcache_env path) ''SCRIPT_NAME'' @ query))"
    unfolding name counted_def by blast
  show "\<not> counted statusPath (strip_query (statusPath @ query))"
    using strip_query_prefix [OF assms(4)] by (simp add: counted_def)
qed

theorem own_traffic_excluded_witness:
  "\<not> counted ''/status'' (strip_query (go_index (opcache_env demo_script) ''SCRIPT_NAME'' @ ''?full''))"
proof -
  have "opcacheScript demo_io (Map.empty, \<lparr>ss_path = [], ss_err = None\<rparr>) =
      ((demo_script, None), fst demo_written, snd demo_written)"
    using demo_first_probe by simp
  from own_traffic_excluded [OF demo_start demo_fresh this, of "''/status''" "''?full''"]
  show ?thesis by simp
qed

section \<open>What a scrape executes\<close>

lemma readPHPInfo_execs: "(b, args) \<in> set (snd (readPHPInfo h bin)) \<Longrightarrow> b = bin \<and> trusted_spec h b"
  by (auto simp: readPHPInfo_def getPHPVersion_def getPHPExtensions_def runBounded_def trustedPath_None [symmetric]
      split: sum.splits prod.splits option.splits if_splits)

text \<open>Everything a scrape executes is the target's own binary, and it is trusted except for the one call
  that reads the configuration, which asks only for an absolute path.\<close>

theorem scrape_executes_target_only:
  assumes "(b, args) \<in> set (snd (snd (scrape env tgt snap sh)))"
  shows "b = t_Binary tgt \<and> (trusted_spec (se_run env (scrape_ctx env tgt)) b \<or> args = tt_args (t_ConfigPath tgt))"
proof -
  have "(b, args) \<in> set (snd (snd (ParseConfigContext (se_run env (scrape_ctx env tgt)) (t_Binary tgt) (t_ConfigPath tgt) (sh_config sh)))) \<or>
      (b, args) \<in> set (snd (snd (GetPHPStats (se_run env (scrape_ctx env tgt)) (se_run env (scrape_ctx env tgt)) (se_await env (scrape_ctx env tgt)) tgt (sh_info sh))))"
    using assms by (auto simp: scrape_def Let_def case_prod_unfold split: sum.splits)
  then show ?thesis
    using ParseConfigContext_execs [of "se_run env (scrape_ctx env tgt)" "t_Binary tgt" "t_ConfigPath tgt" "sh_config sh"]
    by (auto simp: GetPHPStats_def case_prod_unfold dest: readPHPInfo_execs split: entered.splits)
qed

end
